theory Spec2Isabelle
  imports Complex_Main "HOL-Library.Sublist"
begin

section \<open>Capture Key: \<open>sanitize_filename\<close>\<close>

text \<open>
  \<open>helpers.py\<close> (lines 27-35) and \<open>screenshot_urls.py\<close> (lines 23-36) hold the same
  function, statement for statement:
  \<^verbatim>\<open>
  def sanitize_filename(url: str, max_len: int = 150) -> str:
      safe = re.sub(r"^https?://", "", url)
      safe = re.sub(r"[^A-Za-z0-9._-]+", "_", safe)
      safe = re.sub(r"_+", "_", safe).strip("_")
      if len(safe) > max_len:
          safe = safe[:max_len]
      if not safe:
          safe = "screenshot"
      return safe + ".png"
  \<close>
  A Python \<open>str\<close> is modelled as a \<open>string\<close> holding its UTF-8 bytes. Every byte of a
  code point beyond ASCII lies outside the class \<open>[A-Za-z0-9._-]\<close>, as the code point
  itself does, and a whole run of such characters becomes one underscore, so the result
  (which is pure ASCII before the length test) is the same in both readings.
\<close>

definition strip_scheme :: "string \<Rightarrow> string" where
  \<comment> \<open>\<open>re.sub(r"^https?://", "", url)\<close>: anchored at the start, case sensitive\<close>
  "strip_scheme u =
     (if prefix ''https://'' u then drop 8 u
      else if prefix ''http://'' u then drop 7 u
      else u)"

definition safe_char :: "char \<Rightarrow> bool" where
  \<comment> \<open>the character class \<open>[A-Za-z0-9._-]\<close>\<close>
  "safe_char c \<longleftrightarrow>
     c \<in> set ''ABCDEFGHIJKLMNOPQRSTUVWXYZabcdefghijklmnopqrstuvwxyz0123456789._-''"

function replace_unsafe :: "string \<Rightarrow> string" where
  \<comment> \<open>\<open>re.sub(r"[^A-Za-z0-9._-]+", "_", safe)\<close>: each maximal run becomes one underscore\<close>
  "replace_unsafe [] = []"
| "replace_unsafe (c # cs) =
     (if safe_char c then c # replace_unsafe cs
      else CHR ''_'' # replace_unsafe (dropWhile (\<lambda>d. \<not> safe_char d) cs))"
  by pat_completeness auto
termination
  by (relation "measure length") (auto simp: less_Suc_eq_le length_dropWhile_le)

function collapse_underscores :: "string \<Rightarrow> string" where
  \<comment> \<open>\<open>re.sub(r"_+", "_", safe)\<close>\<close>
  "collapse_underscores [] = []"
| "collapse_underscores (c # cs) =
     (if c = CHR ''_'' then CHR ''_'' # collapse_underscores (dropWhile (\<lambda>d. d = CHR ''_'') cs)
      else c # collapse_underscores cs)"
  by pat_completeness auto
termination
  by (relation "measure length") (auto simp: less_Suc_eq_le length_dropWhile_le)

definition strip_underscores :: "string \<Rightarrow> string" where
  \<comment> \<open>\<open>.strip("_")\<close>\<close>
  "strip_underscores s =
     rev (dropWhile (\<lambda>d. d = CHR ''_'') (rev (dropWhile (\<lambda>d. d = CHR ''_'') s)))"

definition py_slice_to :: "int \<Rightarrow> 'a list \<Rightarrow> 'a list" where
  \<comment> \<open>\<open>xs[:n]\<close>: a negative bound counts from the end\<close>
  "py_slice_to n xs =
     (if 0 \<le> n then take (nat n) xs else take (nat (int (length xs) + n)) xs)"

definition sanitized :: "string \<Rightarrow> string" where
  \<comment> \<open>the value of \<open>safe\<close> after the three substitutions and the trim\<close>
  "sanitized u = strip_underscores (collapse_underscores (replace_unsafe (strip_scheme u)))"

definition truncated :: "int \<Rightarrow> string \<Rightarrow> string" where
  \<comment> \<open>\<open>if len(safe) > max_len: safe = safe[:max_len]\<close>\<close>
  "truncated max_len s = (if int (length s) > max_len then py_slice_to max_len s else s)"

definition sanitize_filename :: "string \<Rightarrow> int \<Rightarrow> string" where
  "sanitize_filename u max_len =
     (let safe = truncated max_len (sanitized u);
          safe = (if safe = [] then ''screenshot'' else safe)
      in safe @ ''.png'')"

definition default_max_len :: int where
  \<comment> \<open>the default of \<open>max_len\<close>; every call in the repository leaves it there\<close>
  "default_max_len = 150"


subsection \<open>The Capture Key in the words of the specification\<close>

text \<open>
  The specification derives the key by five steps, each on the whole string: strip the
  scheme; replace every character outside \<open>[A-Za-z0-9._-]\<close> by an underscore; collapse
  repeated underscores; trim leading and trailing underscores; truncate to the maximum
  length, 150. These definitions follow those words, one character at a time, and are
  what \<open>sanitize_filename\<close> is compared with.
\<close>

definition spec_strip_scheme :: "string \<Rightarrow> string" where
  \<comment> \<open>a leading \<open>http://\<close> or \<open>https://\<close> is removed\<close>
  "spec_strip_scheme u =
     (if take 7 u = ''http://'' then drop 7 u
      else if take 8 u = ''https://'' then drop 8 u
      else u)"

definition spec_replace :: "string \<Rightarrow> string" where
  \<comment> \<open>every character outside the class becomes an underscore, the others stay\<close>
  "spec_replace s = map (\<lambda>c. if safe_char c then c else CHR ''_'') s"

fun spec_collapse :: "string \<Rightarrow> string" where
  \<comment> \<open>an underscore that is followed by an underscore is dropped\<close>
  "spec_collapse (a # b # cs) =
     (if a = CHR ''_'' \<and> b = CHR ''_'' then spec_collapse (b # cs)
      else a # spec_collapse (b # cs))"
| "spec_collapse cs = cs"

fun spec_trim_left :: "string \<Rightarrow> string" where
  "spec_trim_left [] = []"
| "spec_trim_left (c # cs) = (if c = CHR ''_'' then spec_trim_left cs else c # cs)"

definition spec_trim :: "string \<Rightarrow> string" where
  \<comment> \<open>leading underscores are removed, then trailing ones\<close>
  "spec_trim s = rev (spec_trim_left (rev (spec_trim_left s)))"

definition spec_content :: "string \<Rightarrow> string" where
  \<comment> \<open>the sanitized character content of a URL\<close>
  "spec_content u =
     take 150 (spec_trim (spec_collapse (spec_replace (spec_strip_scheme u))))"

definition spec_key :: "string \<Rightarrow> string" where
  \<comment> \<open>the content, or the fixed name when there is none, and the extension\<close>
  "spec_key u = (if spec_content u = [] then ''screenshot'' else spec_content u) @ ''.png''"


section \<open>Lazy-content trigger: \<open>gentle_scroll\<close>\<close>

text \<open>
  \<open>screenshot_urls.py\<close>, lines 61-78. The browser is an external, stateful collaborator:
  a \<open>driver\<close> gives, for each of the three scripts the loop runs, the value it returns
  (or the exception it raises) and the browser's next state, and what a pause does to
  the page. The result carries the trace of the calls made to the driver, each with its
  outcome, the final value of \<open>steps\<close> and the way the loop was left.
\<close>

datatype exn =
    KeyError string
  | OSError string
  | WebDriverException string
  | Exception string

fun str_exn :: "exn \<Rightarrow> string" where
  \<comment> \<open>\<open>str(e)\<close>: a \<open>KeyError\<close> prints the \<open>repr\<close> of its key\<close>
  "str_exn (KeyError k) = [CHR 0x27] @ k @ [CHR 0x27]"
| "str_exn (OSError m) = m"
| "str_exn (WebDriverException m) = m"
| "str_exn (Exception m) = m"

record 'b driver =
  script_scroll_height :: "'b \<Rightarrow> exn + real \<times> 'b"
  script_scroll_to :: "real \<Rightarrow> 'b \<Rightarrow> exn + 'b"
  script_page_y_offset :: "'b \<Rightarrow> exn + real \<times> 'b"
  time_sleep :: "real \<Rightarrow> 'b \<Rightarrow> 'b"

datatype event =
    ExecHeight "exn + real"
  | ExecScrollTo real "exn option"
  | ExecOffset "exn + real"
  | Sleep real

datatype stop = Exhausted | Stalled | Raised exn

record 'b scrolled =
  steps :: int
  browser :: 'b
  trace :: "event list"
  outcome :: stop

datatype 'b pass = Again real 'b "event list" | Leave "'b scrolled"

text \<open>
  One pass through the body of \<open>while steps < max_steps\<close> (lines 68-78): it either
  ends with \<open>last_height = new_height\<close> and goes round again, or leaves the loop, by
  \<open>break\<close> after the jump to the bottom or by an exception of the driver. \<open>n\<close> is the
  value of \<open>steps\<close> on entry.
\<close>

definition scroll_body :: "'b driver \<Rightarrow> real \<Rightarrow> real \<Rightarrow> int \<Rightarrow> 'b \<Rightarrow> 'b pass" where
  "scroll_body drv pause last_height n b =
     (case script_scroll_height drv b of
        Inl e \<Rightarrow>
          Leave \<lparr>steps = n, browser = b, trace = [ExecHeight (Inl e)], outcome = Raised e\<rparr>
      | Inr (height, b1) \<Rightarrow>
          let y = min (last_height + 800) height in
          (case script_scroll_to drv y b1 of
             Inl e \<Rightarrow>
               Leave \<lparr>steps = n, browser = b1,
                      trace = [ExecHeight (Inr height), ExecScrollTo y (Some e)],
                      outcome = Raised e\<rparr>
           | Inr b2 \<Rightarrow>
               let b3 = time_sleep drv pause b2 in
               (case script_page_y_offset drv b3 of
                  Inl e \<Rightarrow>
                    Leave \<lparr>steps = n, browser = b3,
                           trace = [ExecHeight (Inr height), ExecScrollTo y None, Sleep pause,
                                    ExecOffset (Inl e)],
                           outcome = Raised e\<rparr>
                | Inr (new_height, b4) \<Rightarrow>
                    if new_height = last_height then
                      (case script_scroll_to drv height b4 of
                         Inl e \<Rightarrow>
                           Leave \<lparr>steps = n + 1, browser = b4,
                                  trace = [ExecHeight (Inr height), ExecScrollTo y None,
                                           Sleep pause, ExecOffset (Inr new_height),
                                           ExecScrollTo height (Some e)],
                                  outcome = Raised e\<rparr>
                       | Inr b5 \<Rightarrow>
                           Leave \<lparr>steps = n + 1, browser = time_sleep drv pause b5,
                                  trace = [ExecHeight (Inr height), ExecScrollTo y None,
                                           Sleep pause, ExecOffset (Inr new_height),
                                           ExecScrollTo height None, Sleep pause],
                                  outcome = Stalled\<rparr>)
                    else
                      Again new_height b4
                        [ExecHeight (Inr height), ExecScrollTo y None, Sleep pause,
                         ExecOffset (Inr new_height)])))"

function scroll_loop ::
  "'b driver \<Rightarrow> real \<Rightarrow> int \<Rightarrow> real \<Rightarrow> int \<Rightarrow> 'b \<Rightarrow> 'b scrolled" where
  "scroll_loop drv pause max_steps last_height n b =
     (if n < max_steps then
        (case scroll_body drv pause last_height n b of
           Leave r \<Rightarrow> r
         | Again new_height b' evs \<Rightarrow>
             let r = scroll_loop drv pause max_steps new_height (n + 1) b'
             in r\<lparr>trace := evs @ trace r\<rparr>)
      else \<lparr>steps = n, browser = b, trace = [], outcome = Exhausted\<rparr>)"
  by pat_completeness auto
termination
  by (relation "measure (\<lambda>(drv, pause, max_steps, last_height, n, b). nat (max_steps - n))")
    auto

definition gentle_scroll :: "'b driver \<Rightarrow> real \<Rightarrow> int \<Rightarrow> 'b \<Rightarrow> 'b scrolled" where
  \<comment> \<open>\<open>last_height = 0\<close>, \<open>steps = 0\<close>, then the loop\<close>
  "gentle_scroll drv pause max_steps b = scroll_loop drv pause max_steps 0 0 b"

definition default_max_steps :: int where
  \<comment> \<open>\<open>screenshot_url\<close> calls \<open>gentle_scroll(driver, pause=0.15)\<close>\<close>
  "default_max_steps = 100"

fun is_height :: "event \<Rightarrow> bool" where
  "is_height (ExecHeight r) = True"
| "is_height ev = False"

fun is_scroll :: "event \<Rightarrow> bool" where
  "is_scroll (ExecScrollTo y r) = True"
| "is_scroll ev = False"

fun offsets_read :: "event list \<Rightarrow> real list" where
  \<comment> \<open>the offsets read back, in order\<close>
  "offsets_read [] = []"
| "offsets_read (ExecOffset (Inr v) # evs) = v # offsets_read evs"
| "offsets_read (ev # evs) = offsets_read evs"

fun changing :: "real \<Rightarrow> real list \<Rightarrow> bool" where
  \<comment> \<open>each offset differs from the one before it (it may be larger or smaller), the
     first from the given start\<close>
  "changing v [] = True"
| "changing v (w # ws) = (w \<noteq> v \<and> changing w ws)"


section \<open>Files, floats and the collaborators of a run\<close>

text \<open>
  A path is a directory together with the name of an entry directly inside it; two
  directories are the same when their resolved names are equal. The file system is an
  association list from paths to nodes, read with \<open>map_of\<close>.
\<close>

type_synonym path = "string \<times> string"

datatype node = File string | Dir

type_synonym fs = "(path \<times> node) list"

definition path_exists :: "path \<Rightarrow> fs \<Rightarrow> bool" where
  \<comment> \<open>\<open>Path.exists()\<close>\<close>
  "path_exists p files \<longleftrightarrow> map_of files p \<noteq> None"

definition str_path :: "path \<Rightarrow> string" where
  \<comment> \<open>\<open>str(dir / name)\<close>\<close>
  "str_path p = fst p @ ''/'' @ snd p"

definition fs_remove :: "path \<Rightarrow> fs \<Rightarrow> fs" where
  "fs_remove p files = filter (\<lambda>e. fst e \<noteq> p) files"

definition fs_write :: "path \<Rightarrow> string \<Rightarrow> fs \<Rightarrow> fs" where
  "fs_write p bytes files = (p, File bytes) # fs_remove p files"

text \<open>
  A Python \<open>float\<close>: the finite values are real numbers, and a comparison with NaN on
  either side is false.
\<close>

datatype pyfloat = Finite real | PosInf | NegInf | NaN

fun float_ge :: "pyfloat \<Rightarrow> pyfloat \<Rightarrow> bool" where
  \<comment> \<open>\<open>a >= b\<close>\<close>
  "float_ge NaN b = False"
| "float_ge a NaN = False"
| "float_ge PosInf b = True"
| "float_ge a NegInf = True"
| "float_ge (Finite x) (Finite y) = (y \<le> x)"
| "float_ge (Finite x) PosInf = False"
| "float_ge NegInf b = False"

record 'a similarity =
  ssim :: pyfloat
  mse :: pyfloat
  diff_vis :: 'a

record item =
  url :: string
  status :: string
  metrics :: "(pyfloat \<times> pyfloat) option"
  reason :: "string option"
  current :: "string option"
  trainer :: string
  diff :: "string option option"

record exec_details =
  ok :: bool
  returncode :: int
  stdout :: string
  stderr :: string

record report =
  urls_file :: string
  screenshots_dir :: string
  trainer_dir :: string
  diff_dir :: string
  report_ssim_threshold :: pyfloat
  execution :: exec_details
  report_totals :: "string \<rightharpoonup> int"
  items :: "item list"
  report_path :: "string option"

datatype response = Failure string | Report report

text \<open>
  The request of \<open>run_and_compare\<close> after lines 77-81 have resolved its directories
  against \<open>/data\<close> and the defaults.
\<close>

record params =
  urls_path :: path
  shots_dir :: string
  base_dir :: string
  diffs_dir :: string
  reps_dir :: string
  timeout :: int
  wait :: pyfloat
  headful :: bool
  ssim_threshold :: pyfloat

definition default_ssim_threshold :: pyfloat where
  "default_ssim_threshold = Finite (92 / 100)"

text \<open>
  What a run takes from outside the repository: the operating system, the capture
  subprocess, text decoding and line splitting, PIL, NumPy and scikit-image, the clock
  and the JSON encoder. \<open>'a\<close> is the type of decoded pixel arrays.
\<close>

record 'a env =
  os_mkdir :: "string \<Rightarrow> fs \<Rightarrow> exn option"
  os_unlink_denied :: "path \<Rightarrow> bool"
  os_write_denied :: "path \<Rightarrow> exn option"
  subprocess_run ::
    "path \<Rightarrow> string \<Rightarrow> int \<Rightarrow> pyfloat \<Rightarrow> bool \<Rightarrow> fs \<Rightarrow> exn + (int \<times> string \<times> string) \<times> fs"
  parse_url_lines :: "string \<Rightarrow> exn + string list"
  image_open :: "string \<Rightarrow> exn + 'a"
  ssim_kernel :: "'a \<Rightarrow> 'a \<Rightarrow> exn + 'a similarity"
  image_encode :: "'a \<Rightarrow> exn + string"
  clock_now :: string
  json_dumps :: "report \<Rightarrow> string"

section \<open>Helpers of \<open>helpers.py\<close>\<close>

fun ensure_dirs :: "'a env \<Rightarrow> string list \<Rightarrow> fs \<Rightarrow> exn option" where
  \<comment> \<open>\<open>p.mkdir(parents=True, exist_ok=True)\<close> for each path; directories are implicit
     in \<open>fs\<close>, so only a refusal is visible\<close>
  "ensure_dirs env [] files = None"
| "ensure_dirs env (d # ds) files =
     (case os_mkdir env d files of Some e \<Rightarrow> Some e | None \<Rightarrow> ensure_dirs env ds files)"

definition read_file :: "path \<Rightarrow> fs \<Rightarrow> exn + string" where
  "read_file p files =
     (case map_of files p of
        None \<Rightarrow> Inl (OSError ''No such file or directory'')
      | Some Dir \<Rightarrow> Inl (OSError ''Is a directory'')
      | Some (File bytes) \<Rightarrow> Inr bytes)"

definition write_file :: "'a env \<Rightarrow> path \<Rightarrow> string \<Rightarrow> fs \<Rightarrow> exn + fs" where
  \<comment> \<open>a refused write is taken to leave the file system as it was\<close>
  "write_file env p bytes files =
     (case map_of files p of
        Some Dir \<Rightarrow> Inl (OSError ''Is a directory'')
      | _ \<Rightarrow> (case os_write_denied env p of
                Some e \<Rightarrow> Inl e
              | None \<Rightarrow> Inr (fs_write p bytes files)))"

definition list_urls :: "'a env \<Rightarrow> path \<Rightarrow> fs \<Rightarrow> exn + string list" where
  \<comment> \<open>lines 38-46; decoding, \<open>splitlines\<close>, \<open>strip\<close>, the comment filter and the
     case-insensitive scheme test work on Unicode text and are left to \<open>parse_url_lines\<close>\<close>
  "list_urls env p files =
     (if \<not> path_exists p files then Inr []
      else (case read_file p files of
              Inl e \<Rightarrow> Inl e
            | Inr bytes \<Rightarrow> parse_url_lines env bytes))"

definition png_to_array :: "'a env \<Rightarrow> path \<Rightarrow> fs \<Rightarrow> exn + 'a" where
  \<comment> \<open>lines 49-51\<close>
  "png_to_array env p files =
     (case read_file p files of Inl e \<Rightarrow> Inl e | Inr bytes \<Rightarrow> image_open env bytes)"

definition compute_metrics :: "'a env \<Rightarrow> 'a \<Rightarrow> 'a \<Rightarrow> exn + 'a similarity" where
  \<comment> \<open>lines 54-65: resampling, luma reduction, SSIM and MSE are floating-point array
     computations of PIL, NumPy and scikit-image\<close>
  "compute_metrics env imgA imgB = ssim_kernel env imgA imgB"

definition save_diff_image :: "'a env \<Rightarrow> 'a \<Rightarrow> path \<Rightarrow> fs \<Rightarrow> exn + fs" where
  \<comment> \<open>lines 68-69\<close>
  "save_diff_image env dv p files =
     (case image_encode env dv of
        Inl e \<Rightarrow> Inl e
      | Inr bytes \<Rightarrow> write_file env p bytes files)"

definition py_last :: "nat \<Rightarrow> 'c list \<Rightarrow> 'c list" where
  \<comment> \<open>\<open>xs[-n:]\<close> for a positive \<open>n\<close>\<close>
  "py_last n xs = drop (length xs - n) xs"

definition run_script ::
  "'a env \<Rightarrow> path \<Rightarrow> string \<Rightarrow> int \<Rightarrow> pyfloat \<Rightarrow> bool \<Rightarrow> fs \<Rightarrow> exn + exec_details \<times> fs" where
  \<comment> \<open>lines 72-96\<close>
  "run_script env urls out_dir tmo w hf files =
     (case ensure_dirs env [out_dir] files of
        Some e \<Rightarrow> Inl e
      | None \<Rightarrow>
          (case subprocess_run env urls out_dir tmo w hf files of
             Inl e \<Rightarrow> Inl e
           | Inr ((rc, out, err), files') \<Rightarrow>
               Inr (\<lparr>ok = (rc = 0), returncode = rc,
                     stdout = py_last 4000 out, stderr = py_last 4000 err\<rparr>, files')))"

definition write_report :: "'a env \<Rightarrow> report \<Rightarrow> string \<Rightarrow> fs \<Rightarrow> exn + path \<times> fs" where
  \<comment> \<open>lines 99-104\<close>
  "write_report env rep reports_dir files =
     (case ensure_dirs env [reports_dir] files of
        Some e \<Rightarrow> Inl e
      | None \<Rightarrow>
          let p = (reports_dir, ''report-'' @ clock_now env @ ''.json'') in
          (case write_file env p (json_dumps env rep) files of
             Inl e \<Rightarrow> Inl e
           | Inr files' \<Rightarrow> Inr (p, files')))"

section \<open>The purge of stale screenshots\<close>

text \<open>
  \<open>screenshots_controller.py\<close>, lines 89-94, and \<open>screenshot_urls.py\<close>, lines 165-170:
  \<^verbatim>\<open>
  for f in shots_dir.glob("*.png"):
      try:
          f.unlink()
      except Exception:
          pass
  \<close>
\<close>

definition glob_png :: "string \<Rightarrow> fs \<Rightarrow> path list" where
  "glob_png d files = filter (\<lambda>p. fst p = d \<and> suffix ''.png'' (snd p)) (map fst files)"

definition unlink :: "'a env \<Rightarrow> path \<Rightarrow> fs \<Rightarrow> exn + fs" where
  "unlink env p files =
     (case map_of files p of
        None \<Rightarrow> Inl (OSError ''No such file or directory'')
      | Some Dir \<Rightarrow> Inl (OSError ''Is a directory'')
      | Some (File bytes) \<Rightarrow>
          if os_unlink_denied env p then Inl (OSError ''Permission denied'')
          else Inr (fs_remove p files))"

fun unlink_each :: "'a env \<Rightarrow> path list \<Rightarrow> fs \<Rightarrow> fs" where
  "unlink_each env [] files = files"
| "unlink_each env (f # fs) files =
     (case unlink env f files of
        Inl e \<Rightarrow> unlink_each env fs files
      | Inr files' \<Rightarrow> unlink_each env fs files')"

definition purge_pngs :: "'a env \<Rightarrow> string \<Rightarrow> fs \<Rightarrow> fs" where
  "purge_pngs env d files = unlink_each env (glob_png d files) files"


section \<open>The run endpoint: \<open>run_and_compare\<close>\<close>

text \<open>
  The loop of lines 102-172 works on three things: the list \<open>per_item\<close>, the dictionary
  \<open>totals\<close> and the file system (read by \<open>exists\<close> and the decoder, written by
  \<open>save_diff_image\<close>).
\<close>

record state =
  per_item :: "item list"
  totals :: "string \<rightharpoonup> int"
  files :: fs

definition totals_init :: "string \<rightharpoonup> int" where
  \<comment> \<open>line 100\<close>
  "totals_init = [''ok'' \<mapsto> 0, ''warn'' \<mapsto> 0, ''fail'' \<mapsto> 0, ''no_trainer'' \<mapsto> 0]"

definition incr :: "(string \<rightharpoonup> int) \<Rightarrow> string \<Rightarrow> exn + (string \<rightharpoonup> int)" where
  \<comment> \<open>\<open>totals[status] += 1\<close>\<close>
  "incr t k = (case t k of None \<Rightarrow> Inl (KeyError k) | Some c \<Rightarrow> Inr (t(k \<mapsto> c + 1)))"

definition count_item :: "item \<Rightarrow> state \<Rightarrow> exn + state" where
  \<comment> \<open>\<open>per_item.append(item); totals[status] += 1\<close> outside a \<open>try\<close>\<close>
  "count_item it st =
     (case incr (totals st) (status it) of
        Inl e \<Rightarrow> Inl e
      | Inr t \<Rightarrow> Inr (st\<lparr>per_item := per_item st @ [it], totals := t\<rparr>))"

definition compare_pair :: "'a env \<Rightarrow> path \<Rightarrow> path \<Rightarrow> fs \<Rightarrow> exn + 'a similarity" where
  \<comment> \<open>lines 136-138: decode the trainer image, decode the current one, compute the metrics\<close>
  "compare_pair env base_path cur_path fls =
     (case png_to_array env base_path fls of
        Inl e \<Rightarrow> Inl e
      | Inr imgA \<Rightarrow>
          (case png_to_array env cur_path fls of
             Inl e \<Rightarrow> Inl e
           | Inr imgB \<Rightarrow> compute_metrics env imgA imgB))"

definition try_compare ::
  "'a env \<Rightarrow> params \<Rightarrow> string \<Rightarrow> string \<Rightarrow> state \<Rightarrow> exn \<times> state + state" where
  \<comment> \<open>the \<open>try\<close> block, lines 136-159; \<open>Inl\<close> carries the exception and the state
     reached when it was raised (a failed save is taken to leave no file behind)\<close>
  "try_compare env p u name st =
     (let cur_path = (shots_dir p, name); base_path = (base_dir p, name) in
      case compare_pair env base_path cur_path (files st) of
        Inl e \<Rightarrow> Inl (e, st)
      | Inr m \<Rightarrow>
          let stat = (if float_ge (ssim m) (ssim_threshold p) then ''ok'' else ''fail'');
              diff_path = (diffs_dir p, ''diff_'' @ name)
          in (case (if stat \<noteq> ''ok''
                    then (case save_diff_image env (diff_vis m) diff_path (files st) of
                            Inl e \<Rightarrow> Inl e
                          | Inr files' \<Rightarrow> Inr (Some (str_path diff_path), files'))
                    else Inr (None, files st)) of
                Inl e \<Rightarrow> Inl (e, st)
              | Inr (d, files') \<Rightarrow>
                  let st1 = st\<lparr>files := files',
                               per_item := per_item st @
                                 [\<lparr>url = u, status = stat, metrics = Some (ssim m, mse m),
                                   reason = None, current = Some (str_path cur_path),
                                   trainer = str_path base_path, diff = Some d\<rparr>]\<rparr>
                  in (case incr (totals st1) stat of
                        Inl e \<Rightarrow> Inl (e, st1)
                      | Inr t \<Rightarrow> Inr (st1\<lparr>totals := t\<rparr>))))"

definition process_url :: "'a env \<Rightarrow> params \<Rightarrow> string \<Rightarrow> state \<Rightarrow> exn + state" where
  \<comment> \<open>the body of \<open>for u in urls\<close>, lines 103-172\<close>
  "process_url env p u st =
     (let name = sanitize_filename u default_max_len;
          cur_path = (shots_dir p, name);
          base_path = (base_dir p, name)
      in if \<not> path_exists base_path (files st) then
           count_item
             \<lparr>url = u, status = ''no_trainer'', metrics = None,
              reason = Some (''Trainer image not found: '' @ name),
              current = (if path_exists cur_path (files st) then Some (str_path cur_path)
                         else None),
              trainer = str_path base_path, diff = None\<rparr> st
         else if \<not> path_exists cur_path (files st) then
           count_item
             \<lparr>url = u, status = ''fail'', metrics = None,
              reason = Some (''Current screenshot not found: '' @ name),
              current = Some (str_path cur_path),
              trainer = str_path base_path, diff = None\<rparr> st
         else
           (case try_compare env p u name st of
              Inr st' \<Rightarrow> Inr st'
            | Inl (e, st') \<Rightarrow>
                count_item
                  \<lparr>url = u, status = ''fail'', metrics = None,
                   reason = Some (''Comparison error: '' @ str_exn e),
                   current = Some (str_path cur_path),
                   trainer = str_path base_path, diff = None\<rparr> st'))"

fun compare_loop :: "'a env \<Rightarrow> params \<Rightarrow> string list \<Rightarrow> state \<Rightarrow> exn + state" where
  "compare_loop env p [] st = Inr st"
| "compare_loop env p (u # us) st =
     (case process_url env p u st of
        Inl e \<Rightarrow> Inl e
      | Inr st' \<Rightarrow> compare_loop env p us st')"

definition init_state :: "fs \<Rightarrow> state" where
  \<comment> \<open>lines 99-100\<close>
  "init_state fls = \<lparr>per_item = [], totals = totals_init, files = fls\<rparr>"

definition capture_phase :: "'a env \<Rightarrow> params \<Rightarrow> fs \<Rightarrow> exn + exec_details \<times> fs" where
  \<comment> \<open>lines 89-96: the purge, then the capture subprocess\<close>
  "capture_phase env p fls =
     run_script env (urls_path p) (shots_dir p) (timeout p) (wait p) (headful p)
       (purge_pngs env (shots_dir p) fls)"

definition run_and_compare :: "'a env \<Rightarrow> params \<Rightarrow> fs \<Rightarrow> exn + response \<times> fs" where
  "run_and_compare env p fls =
     (case ensure_dirs env [shots_dir p, base_dir p, diffs_dir p, reps_dir p] fls of
        Some e \<Rightarrow> Inl e
      | None \<Rightarrow>
     if \<not> path_exists (urls_path p) fls then
       Inr (Failure (''URLs file not found: '' @ str_path (urls_path p)), fls)
     else
     (case capture_phase env p fls of
        Inl e \<Rightarrow> Inl e
      | Inr (exec_details, fls1) \<Rightarrow>
     (case list_urls env (urls_path p) fls1 of
        Inl e \<Rightarrow> Inl e
      | Inr urls \<Rightarrow>
     (case compare_loop env p urls (init_state fls1) of
        Inl e \<Rightarrow> Inl e
      | Inr st \<Rightarrow>
          let rep = \<lparr>urls_file = str_path (urls_path p),
                     screenshots_dir = shots_dir p,
                     trainer_dir = base_dir p,
                     diff_dir = diffs_dir p,
                     report_ssim_threshold = ssim_threshold p,
                     execution = exec_details,
                     report_totals = totals st,
                     items = per_item st,
                     report_path = None\<rparr>
          in (case write_report env rep (reps_dir p) (files st) of
                Inl e \<Rightarrow> Inl e
              | Inr (rp, fls2) \<Rightarrow>
                  Inr (Report (rep\<lparr>report_path := Some (str_path rp)\<rparr>), fls2))))))"


text \<open>
  The relation the loop keeps between \<open>per_item\<close> and \<open>totals\<close>: every counter holds
  the number of items with that status, and only three statuses occur.
\<close>

definition count_status :: "string \<Rightarrow> item list \<Rightarrow> int" where
  "count_status k its = int (length (filter (\<lambda>it. status it = k) its))"

definition tallied :: "item list \<Rightarrow> (string \<rightharpoonup> int) \<Rightarrow> bool" where
  "tallied its t \<longleftrightarrow>
     dom t = {''ok'', ''warn'', ''fail'', ''no_trainer''} \<and>
     t ''ok'' = Some (count_status ''ok'' its) \<and>
     t ''warn'' = Some 0 \<and>
     t ''fail'' = Some (count_status ''fail'' its) \<and>
     t ''no_trainer'' = Some (count_status ''no_trainer'' its) \<and>
     list_all (\<lambda>it. status it = ''ok'' \<or> status it = ''fail'' \<or> status it = ''no_trainer'') its"

definition step_frame :: "params \<Rightarrow> fs \<Rightarrow> fs \<Rightarrow> bool" where
  \<comment> \<open>what the loop may do to the file system: write into the diff directory\<close>
  "step_frame p fls fls' \<longleftrightarrow>
     (\<forall>q. fst q \<noteq> diffs_dir p \<longrightarrow> map_of fls' q = map_of fls q) \<and>
     (\<forall>q. path_exists q fls \<longrightarrow> path_exists q fls')"

definition files_at :: "'a env \<Rightarrow> params \<Rightarrow> string list \<Rightarrow> fs \<Rightarrow> nat \<Rightarrow> fs option" where
  \<comment> \<open>the file system when the turn of the \<open>i\<close>-th URL comes\<close>
  "files_at env p us fls i =
     (case compare_loop env p (take i us) (init_state fls) of
        Inl e \<Rightarrow> None
      | Inr st \<Rightarrow> Some (files st))"

definition report_of :: "exn + response \<times> fs \<Rightarrow> report option" where
  \<comment> \<open>the report of a run that returned one\<close>
  "report_of x = (case x of Inr (Report r, fls) \<Rightarrow> Some r | _ \<Rightarrow> None)"

definition files_after :: "exn + response \<times> fs \<Rightarrow> fs option" where
  \<comment> \<open>the file system a run leaves behind\<close>
  "files_after x = (case x of Inr (resp, fls) \<Rightarrow> Some fls | Inl e \<Rightarrow> None)"

section \<open>Concrete inputs\<close>

text \<open>Inputs at which the theorems below are instantiated.\<close>

subsection \<open>Two pages\<close>

text \<open>
  A page 2000 pixels high whose scroll offset cannot exceed 1200; the browser state is
  the offset.
\<close>

definition page_driver :: "real driver" where
  "page_driver =
     \<lparr>script_scroll_height = (\<lambda>y. Inr (2000, y)),
      script_scroll_to = (\<lambda>y b. Inr (min y 1200)),
      script_page_y_offset = (\<lambda>y. Inr (y, y)),
      time_sleep = (\<lambda>p y. y)\<rparr>"

text \<open>
  A page whose content collapses to a height of 400 once it is scrolled to 800 or
  beyond, and grows back to 2000 above that; the browser goes where it is told.
\<close>

definition back_driver :: "real driver" where
  "back_driver =
     \<lparr>script_scroll_height = (\<lambda>y. Inr (if 800 \<le> y then 400 else 2000, y)),
      script_scroll_to = (\<lambda>y b. Inr y),
      script_page_y_offset = (\<lambda>y. Inr (y, y)),
      time_sleep = (\<lambda>p y. y)\<rparr>"

subsection \<open>A run over eight URLs\<close>

text \<open>
  A run over eight URLs: one without a trainer image, one whose capture equals its
  trainer image, one whose capture differs, one that was not captured, one whose trainer
  image cannot be decoded, two that share a Capture Key, and one whose capture scores
  exactly the threshold. \<open>params_alias\<close> is the
  request whose output directory is the trainer directory.
\<close>

definition demo_urls :: "string list" where
  "demo_urls =
     [''https://example.com/new'', ''https://example.com/same'', ''https://example.com/changed'',
      ''https://example.com/missing'', ''https://example.com/corrupt'',
      ''https://example.com/a/b'', ''https://example.com/a_b'', ''https://example.com/edge'']"

definition env_demo :: "string env" where
  "env_demo =
     \<lparr>os_mkdir = (\<lambda>d fls. None),
      os_unlink_denied = (\<lambda>p. False),
      os_write_denied = (\<lambda>p. None),
      subprocess_run = (\<lambda>urls out tmo w hf fls.
        Inr ((0, ''[OK] Saved'', []),
             fs_write (out, ''example.com_new.png'') ''img-new''
               (fs_write (out, ''example.com_same.png'') ''img-same''
                 (fs_write (out, ''example.com_changed.png'') ''img-changed''
                   (fs_write (out, ''example.com_corrupt.png'') ''img-corrupt''
                     (fs_write (out, ''example.com_a_b.png'') ''img-ab''
                       (fs_write (out, ''example.com_edge.png'') ''img-edge'' fls))))))),
      parse_url_lines = (\<lambda>bytes. Inr demo_urls),
      image_open = (\<lambda>bytes. if bytes = ''corrupt''
                             then Inl (Exception ''cannot identify image file'')
                             else Inr bytes),
      ssim_kernel = (\<lambda>a b. Inr \<lparr>ssim = (if a = b then Finite 1
                                        else if b = ''img-edge'' then Finite (92 / 100)
                                        else Finite (1 / 2)),
                                mse = (if a = b then Finite 0 else Finite 100),
                                diff_vis = ''diff-image''\<rparr>),
      image_encode = (\<lambda>a. Inr a),
      clock_now = ''20261103-120000'',
      json_dumps = (\<lambda>r. ''{}'')\<rparr>"

definition params_demo :: params where
  "params_demo =
     \<lparr>urls_path = (''/data'', ''urls.txt''),
      shots_dir = ''/data/screenshots'',
      base_dir = ''/data/trainer_screenshots'',
      diffs_dir = ''/data/diff'',
      reps_dir = ''/data/reports'',
      timeout = 20,
      wait = Finite 2,
      headful = False,
      ssim_threshold = default_ssim_threshold\<rparr>"

definition files_demo :: fs where
  "files_demo =
     [((''/data'', ''urls.txt''), File ''example.com/new ...''),
      ((''/data/screenshots'', ''old.png''), File ''img-stale''),
      ((''/data/screenshots'', ''notes.txt''), File ''keep''),
      ((''/data/trainer_screenshots'', ''example.com_same.png''), File ''img-same''),
      ((''/data/trainer_screenshots'', ''example.com_changed.png''), File ''img-old''),
      ((''/data/trainer_screenshots'', ''example.com_missing.png''), File ''img-missing''),
      ((''/data/trainer_screenshots'', ''example.com_corrupt.png''), File ''corrupt''),
      ((''/data/trainer_screenshots'', ''example.com_a_b.png''), File ''img-ab''),
      ((''/data/trainer_screenshots'', ''example.com_edge.png''), File ''img-edge-old'')]"


text \<open>The file system of that run after the purge and the capture, and after the third URL.\<close>

definition exec_demo :: exec_details where
  "exec_demo = \<lparr>ok = True, returncode = 0, stdout = ''[OK] Saved'', stderr = []\<rparr>"

definition files_captured :: fs where
  "files_captured =
     [((''/data/screenshots'', ''example.com_new.png''), File ''img-new''),
      ((''/data/screenshots'', ''example.com_same.png''), File ''img-same''),
      ((''/data/screenshots'', ''example.com_changed.png''), File ''img-changed''),
      ((''/data/screenshots'', ''example.com_corrupt.png''), File ''img-corrupt''),
      ((''/data/screenshots'', ''example.com_a_b.png''), File ''img-ab''),
      ((''/data/screenshots'', ''example.com_edge.png''), File ''img-edge''),
      ((''/data'', ''urls.txt''), File ''example.com/new ...''),
      ((''/data/screenshots'', ''notes.txt''), File ''keep''),
      ((''/data/trainer_screenshots'', ''example.com_same.png''), File ''img-same''),
      ((''/data/trainer_screenshots'', ''example.com_changed.png''), File ''img-old''),
      ((''/data/trainer_screenshots'', ''example.com_missing.png''), File ''img-missing''),
      ((''/data/trainer_screenshots'', ''example.com_corrupt.png''), File ''corrupt''),
      ((''/data/trainer_screenshots'', ''example.com_a_b.png''), File ''img-ab''),
      ((''/data/trainer_screenshots'', ''example.com_edge.png''), File ''img-edge-old'')]"

definition files_changed :: fs where
  "files_changed =
     ((''/data/diff'', ''diff_example.com_changed.png''), File ''diff-image'') # files_captured"


section \<open>Properties of the Capture Key\<close>


lemma truncated_Nil: "truncated m [] = []"
  by (simp add: truncated_def py_slice_to_def)




lemma safe_char_h: "safe_char CHR ''h''"
  by (simp add: safe_char_def)

lemma replace_unsafe_all_unsafe:
  assumes a: "\<forall>c\<in>set u. \<not> safe_char c"
  shows "replace_unsafe u = (if u = [] then [] else ''_'')"
proof (cases u)
  case Nil
  then show ?thesis by simp
next
  case (Cons c cs)
  with a have d: "dropWhile (\<lambda>d. \<not> safe_char d) cs = []" by simp
  from a Cons have "\<not> safe_char c" by simp
  with Cons have "replace_unsafe u =
      CHR ''_'' # replace_unsafe (dropWhile (\<lambda>d. \<not> safe_char d) cs)"
    by simp
  also have "\<dots> = ''_''" unfolding d by simp
  finally show ?thesis using Cons by simp
qed

lemma strip_scheme_all_unsafe:
  assumes a: "\<forall>c\<in>set u. \<not> safe_char c"
  shows "strip_scheme u = u"
proof -
  have "CHR ''h'' \<notin> set u" using a safe_char_h by blast
  then have "\<not> prefix ''https://'' u" "\<not> prefix ''http://'' u"
    by (auto simp: prefix_def)
  then show ?thesis by (simp add: strip_scheme_def)
qed

lemma sanitized_all_unsafe: "\<forall>c\<in>set u. \<not> safe_char c \<Longrightarrow> sanitized u = []"
  by (simp add: sanitized_def strip_scheme_all_unsafe replace_unsafe_all_unsafe
      strip_underscores_def)

lemma sanitized_https: "sanitized ''https://'' = []"
  by code_simp

lemma sanitize_filename_empty:
  "sanitized u = [] \<Longrightarrow> sanitize_filename u m = ''screenshot.png''"
  by (simp add: sanitize_filename_def truncated_Nil)

lemma sanitize_filename_not_bare: "sanitize_filename u m \<noteq> ''.png''"
  by (simp add: sanitize_filename_def Let_def)



text \<open>
  Claim C10. A URL whose content is empty after scheme stripping, replacement of
  unsafe characters, collapsing and trimming gets the key \<open>screenshot.png\<close>; that is
  so for \<open>https://\<close> and for every URL made only of characters outside
  \<open>[A-Za-z0-9._-]\<close>. No key is the bare extension, whatever \<open>max_len\<close> is, and any two
  URLs with empty content get the same key.
\<close>

theorem sanitize_filename_fallback:
  "(sanitized u = [] \<longrightarrow> sanitize_filename u default_max_len = ''screenshot.png'')
   \<and> sanitize_filename ''https://'' default_max_len = ''screenshot.png''
   \<and> ((\<forall>c\<in>set v. \<not> safe_char c) \<longrightarrow>
        sanitize_filename v default_max_len = ''screenshot.png'')
   \<and> sanitize_filename w m \<noteq> ''.png''
   \<and> (sanitized u1 = [] \<and> sanitized u2 = [] \<longrightarrow>
        sanitize_filename u1 default_max_len = sanitize_filename u2 default_max_len)"
  by (simp add: sanitize_filename_empty sanitized_https sanitized_all_unsafe
      sanitize_filename_not_bare)

theorem sanitize_filename_fallback_witness:
  "sanitized ''http://?/'' = []
   \<and> sanitized ''https://'' = []
   \<and> sanitize_filename ''http://?/'' default_max_len = ''screenshot.png''
   \<and> sanitize_filename ''?? &'' default_max_len = ''screenshot.png''
   \<and> sanitize_filename ''http://?/'' default_max_len
       = sanitize_filename ''https://'' default_max_len"
proof -
  have a: "sanitized ''http://?/'' = []" by code_simp
  have b: "\<forall>c\<in>set ''?? &''. \<not> safe_char c" by code_simp
  have c: "sanitized ''https://'' = []" by code_simp
  from a b c
    sanitize_filename_fallback [of "''http://?/''" "''?? &''" "''x''" 150
      "''http://?/''" "''https://''"]
  show ?thesis by blast
qed

section \<open>Properties of the scroll loop\<close>

lemma offsets_read_append: "offsets_read (xs @ ys) = offsets_read xs @ offsets_read ys"
  by (induction xs rule: offsets_read.induct) auto

lemma body_again:
  "scroll_body drv pause l n b = Again l' b' evs \<Longrightarrow>
   l' \<noteq> l \<and> (\<exists>h y. evs = [ExecHeight (Inr h), ExecScrollTo y None, Sleep pause, ExecOffset (Inr l')])"
  by (auto simp: scroll_body_def Let_def split: sum.splits prod.splits if_splits)

lemma body_leave:
  "scroll_body drv pause l n b = Leave r \<Longrightarrow>
   n \<le> steps r \<and> steps r \<le> n + 1 \<and> outcome r \<noteq> Exhausted \<and>
   length (filter is_height (trace r)) = 1 \<and>
   (offsets_read (trace r) = [] \<or> offsets_read (trace r) = [l]) \<and>
   (outcome r = Stalled \<longrightarrow>
      steps r = n + 1 \<and> length (filter is_scroll (trace r)) = 2 \<and> offsets_read (trace r) = [l] \<and>
      (\<exists>h y. trace r = [ExecHeight (Inr h), ExecScrollTo y None, Sleep pause,
                        ExecOffset (Inr l), ExecScrollTo h None, Sleep pause]))"
  by (auto simp: scroll_body_def Let_def split: sum.splits prod.splits if_splits)


declare scroll_loop.simps [simp del]

lemma scroll_loop_exhausted:
  "\<not> n < m \<Longrightarrow>
   scroll_loop drv pause m l n b = \<lparr>steps = n, browser = b, trace = [], outcome = Exhausted\<rparr>"
  by (subst scroll_loop.simps) simp

lemma scroll_loop_leave:
  "n < m \<Longrightarrow> scroll_body drv pause l n b = Leave r \<Longrightarrow> scroll_loop drv pause m l n b = r"
  by (subst scroll_loop.simps) simp

lemma scroll_loop_again:
  "n < m \<Longrightarrow> scroll_body drv pause l n b = Again l' b' evs \<Longrightarrow>
   scroll_loop drv pause m l n b =
     (scroll_loop drv pause m l' (n + 1) b')
       \<lparr>trace := evs @ trace (scroll_loop drv pause m l' (n + 1) b')\<rparr>"
  by (subst scroll_loop.simps) (simp add: Let_def)

lemma scroll_loop_steps:
  "n \<le> steps (scroll_loop drv pause m l n b) \<and> steps (scroll_loop drv pause m l n b) \<le> max n m"
proof (induction drv pause m l n b rule: scroll_loop.induct)
  case (1 drv pause m l n b)
  show ?case
  proof (cases "n < m")
    case False
    then show ?thesis by (simp add: scroll_loop_exhausted)
  next
    case True
    show ?thesis
    proof (cases "scroll_body drv pause l n b")
      case (Leave r)
      with True body_leave [OF Leave] show ?thesis
        by (simp add: scroll_loop_leave)
    next
      case (Again l' b' evs)
      with True "1.IH" [OF True Again] show ?thesis
        by (simp add: scroll_loop_again)
    qed
  qed
qed

lemma scroll_loop_heights:
  "int (length (filter is_height (trace (scroll_loop drv pause m l n b)))) \<le> max 0 (m - n)"
proof (induction drv pause m l n b rule: scroll_loop.induct)
  case (1 drv pause m l n b)
  show ?case
  proof (cases "n < m")
    case False
    then show ?thesis by (simp add: scroll_loop_exhausted)
  next
    case True
    show ?thesis
    proof (cases "scroll_body drv pause l n b")
      case (Leave r)
      with True body_leave [OF Leave] show ?thesis
        by (simp add: scroll_loop_leave)
    next
      case (Again l' b' evs)
      from body_again [OF Again] have "length (filter is_height evs) = 1" by auto
      with True Again "1.IH" [OF True Again] show ?thesis
        by (simp add: scroll_loop_again)
    qed
  qed
qed

lemma scroll_loop_changing:
  "changing l (butlast (offsets_read (trace (scroll_loop drv pause m l n b))))"
proof (induction drv pause m l n b rule: scroll_loop.induct)
  case (1 drv pause m l n b)
  show ?case
  proof (cases "n < m")
    case False
    then show ?thesis by (simp add: scroll_loop_exhausted)
  next
    case True
    show ?thesis
    proof (cases "scroll_body drv pause l n b")
      case (Leave r)
      with True body_leave [OF Leave] show ?thesis
        by (auto simp add: scroll_loop_leave)
    next
      case (Again l' b' evs)
      from body_again [OF Again] have ev: "offsets_read evs = [l']" and ne: "l' \<noteq> l" by auto
      with True Again "1.IH" [OF True Again] show ?thesis
        by (simp add: scroll_loop_again offsets_read_append)
    qed
  qed
qed

lemma scroll_loop_Exhausted:
  "outcome (scroll_loop drv pause m l n b) = Exhausted \<Longrightarrow>
   steps (scroll_loop drv pause m l n b) = max n m \<and>
   changing l (offsets_read (trace (scroll_loop drv pause m l n b))) \<and>
   int (length (filter is_scroll (trace (scroll_loop drv pause m l n b))))
     = steps (scroll_loop drv pause m l n b) - n"
proof (induction drv pause m l n b rule: scroll_loop.induct)
  case (1 drv pause m l n b)
  show ?case
  proof (cases "n < m")
    case False
    then show ?thesis by (simp add: scroll_loop_exhausted)
  next
    case True
    show ?thesis
    proof (cases "scroll_body drv pause l n b")
      case (Leave r)
      with True body_leave [OF Leave] "1.prems" show ?thesis
        by (simp add: scroll_loop_leave)
    next
      case (Again l' b' evs)
      from body_again [OF Again] have ev: "offsets_read evs = [l']" and ne: "l' \<noteq> l"
        and sc: "length (filter is_scroll evs) = 1" by auto
      from "1.prems" True Again
      have "outcome (scroll_loop drv pause m l' (n + 1) b') = Exhausted"
        by (simp add: scroll_loop_again)
      from "1.IH" [OF True Again this] ev ne sc True Again show ?thesis
        by (simp add: scroll_loop_again offsets_read_append)
    qed
  qed
qed

lemma scroll_loop_Stalled:
  "outcome (scroll_loop drv pause m l n b) = Stalled \<Longrightarrow>
   int (length (filter is_scroll (trace (scroll_loop drv pause m l n b))))
     = steps (scroll_loop drv pause m l n b) - n + 1 \<and>
   offsets_read (trace (scroll_loop drv pause m l n b)) \<noteq> [] \<and>
   last (offsets_read (trace (scroll_loop drv pause m l n b)))
     = last (l # butlast (offsets_read (trace (scroll_loop drv pause m l n b)))) \<and>
   (\<exists>pre h y v. trace (scroll_loop drv pause m l n b) =
      pre @ [ExecHeight (Inr h), ExecScrollTo y None, Sleep pause, ExecOffset (Inr v),
             ExecScrollTo h None, Sleep pause])"
proof (induction drv pause m l n b rule: scroll_loop.induct)
  case (1 drv pause m l n b)
  show ?case
  proof (cases "n < m")
    case False
    with "1.prems" show ?thesis by (simp add: scroll_loop_exhausted)
  next
    case True
    show ?thesis
    proof (cases "scroll_body drv pause l n b")
      case (Leave r)
      with True body_leave [OF Leave] "1.prems" show ?thesis
        by (auto simp add: scroll_loop_leave)
    next
      case (Again l' b' evs)
      let ?r = "scroll_loop drv pause m l' (n + 1) b'"
      from body_again [OF Again] have ev: "offsets_read evs = [l']" and ne: "l' \<noteq> l"
        and sc: "length (filter is_scroll evs) = 1" by auto
      from "1.prems" True Again have st: "outcome ?r = Stalled"
        by (simp add: scroll_loop_again)
      note ih = "1.IH" [OF True Again st]
      have eq: "scroll_loop drv pause m l n b = ?r\<lparr>trace := evs @ trace ?r\<rparr>"
        using True Again by (rule scroll_loop_again)
      from ih obtain pre h y v where
        tr: "trace ?r = pre @ [ExecHeight (Inr h), ExecScrollTo y None, Sleep pause,
               ExecOffset (Inr v), ExecScrollTo h None, Sleep pause]" by blast
      have "trace (scroll_loop drv pause m l n b) = (evs @ pre) @ [ExecHeight (Inr h),
              ExecScrollTo y None, Sleep pause, ExecOffset (Inr v), ExecScrollTo h None,
              Sleep pause]"
        by (simp add: eq tr)
      then have ex: "\<exists>pre h y v. trace (scroll_loop drv pause m l n b) =
          pre @ [ExecHeight (Inr h), ExecScrollTo y None, Sleep pause, ExecOffset (Inr v),
             ExecScrollTo h None, Sleep pause]" by blast
      from ih ev ne sc have rest:
        "int (length (filter is_scroll (evs @ trace ?r))) = steps ?r - n + 1"
        "offsets_read (evs @ trace ?r) \<noteq> []"
        "last (offsets_read (evs @ trace ?r)) = last (l # butlast (offsets_read (evs @ trace ?r)))"
        by (simp_all add: offsets_read_append)
      with ex show ?thesis by (simp add: eq)
    qed
  qed
qed


text \<open>
  Claim C9, as amended. \<open>gentle_scroll\<close> always returns (the loop is a total function:
  the distance from \<open>steps\<close> to \<open>max_steps\<close> shrinks with every pass). It begins at
  most \<open>max_steps\<close> passes, 100 by default, and \<open>steps\<close> ends at most there. It stops
  early exactly on an offset equal to the one read before it (0 before the first pass):
  every offset read before the last one differs from its predecessor, larger or
  smaller, and when the loop is left by \<open>break\<close> the last offset read equals its
  predecessor. The trace then ends with that pass followed by one scroll, to the height
  that was read at the start of that pass, and one pause: one scroll more than passes.
  When the loop runs out of steps, no offset equalled its predecessor and there is no
  extra scroll.
\<close>

theorem gentle_scroll_terminates:
  assumes "r = gentle_scroll drv pause max_steps b"
  shows "0 \<le> steps r \<and> steps r \<le> max 0 max_steps
    \<and> int (length (filter is_height (trace r))) \<le> max 0 max_steps
    \<and> (max_steps = default_max_steps \<longrightarrow>
         steps r \<le> 100 \<and> length (filter is_height (trace r)) \<le> 100)
    \<and> changing 0 (butlast (offsets_read (trace r)))
    \<and> (outcome r = Exhausted \<longrightarrow>
         steps r = max 0 max_steps \<and> changing 0 (offsets_read (trace r)) \<and>
         int (length (filter is_scroll (trace r))) = steps r)
    \<and> (outcome r = Stalled \<longrightarrow>
         int (length (filter is_scroll (trace r))) = steps r + 1 \<and>
         offsets_read (trace r) \<noteq> [] \<and>
         last (offsets_read (trace r)) = last (0 # butlast (offsets_read (trace r))) \<and>
         (\<exists>pre h y v. trace r =
            pre @ [ExecHeight (Inr h), ExecScrollTo y None, Sleep pause, ExecOffset (Inr v),
                   ExecScrollTo h None, Sleep pause]))"
proof -
  have r: "r = scroll_loop drv pause max_steps 0 0 b"
    using assms by (simp add: gentle_scroll_def)
  have s: "0 \<le> steps r \<and> steps r \<le> max 0 max_steps"
    unfolding r by (rule scroll_loop_steps)
  have h: "int (length (filter is_height (trace r))) \<le> max 0 max_steps"
    unfolding r using scroll_loop_heights [of drv pause max_steps 0 0 b] by simp
  have d: "max_steps = default_max_steps \<longrightarrow>
      steps r \<le> 100 \<and> length (filter is_height (trace r)) \<le> 100"
    using s h by (auto simp: default_max_steps_def)
  have a: "changing 0 (butlast (offsets_read (trace r)))"
    unfolding r by (rule scroll_loop_changing)
  have e: "outcome r = Exhausted \<longrightarrow>
      steps r = max 0 max_steps \<and> changing 0 (offsets_read (trace r)) \<and>
      int (length (filter is_scroll (trace r))) = steps r"
    unfolding r using scroll_loop_Exhausted [of drv pause max_steps 0 0 b] by simp
  have t: "outcome r = Stalled \<longrightarrow>
      int (length (filter is_scroll (trace r))) = steps r + 1 \<and>
      offsets_read (trace r) \<noteq> [] \<and>
      last (offsets_read (trace r)) = last (0 # butlast (offsets_read (trace r))) \<and>
      (\<exists>pre h y v. trace r =
         pre @ [ExecHeight (Inr h), ExecScrollTo y None, Sleep pause, ExecOffset (Inr v),
                ExecScrollTo h None, Sleep pause])"
    unfolding r using scroll_loop_Stalled [of drv pause max_steps 0 0 b] by simp
  from s h d a e t show ?thesis by blast
qed

theorem gentle_scroll_terminates_witness:
  "outcome (gentle_scroll page_driver (3 / 20) default_max_steps 0) = Stalled
   \<and> steps (gentle_scroll page_driver (3 / 20) default_max_steps 0) = 3
   \<and> int (length (filter is_scroll
        (trace (gentle_scroll page_driver (3 / 20) default_max_steps 0)))) = 3 + 1
   \<and> outcome (gentle_scroll page_driver (3 / 20) 2 0) = Exhausted
   \<and> steps (gentle_scroll page_driver (3 / 20) 2 0) = max 0 2
   \<and> int (length (filter is_scroll (trace (gentle_scroll page_driver (3 / 20) 2 0)))) = 2"
proof -
  have a: "outcome (gentle_scroll page_driver (3 / 20) default_max_steps 0) = Stalled"
    by code_simp
  have b: "steps (gentle_scroll page_driver (3 / 20) default_max_steps 0) = 3"
    by code_simp
  have c: "outcome (gentle_scroll page_driver (3 / 20) 2 0) = Exhausted"
    by code_simp
  from a b c
    gentle_scroll_terminates [OF refl, of page_driver "3 / 20" default_max_steps 0]
    gentle_scroll_terminates [OF refl, of page_driver "3 / 20" 2 0]
  show ?thesis by simp
qed


lemma back_body:
  "(l = 0 \<or> l = 400 \<or> l = 800 \<or> l = 1200) \<Longrightarrow>
   \<exists>l' evs. scroll_body back_driver pause l n l = Again l' l' evs \<and>
     (l' = 400 \<or> l' = 800 \<or> l' = 1200) \<and> offsets_read evs = [l'] \<and>
     (l = 0 \<longrightarrow> l' = 800) \<and> (l = 800 \<longrightarrow> l' = 400)"
  by (auto simp: scroll_body_def back_driver_def Let_def)

lemma back_loop:
  "drv = back_driver \<Longrightarrow> b = l \<Longrightarrow> (l = 0 \<or> l = 400 \<or> l = 800 \<or> l = 1200) \<Longrightarrow>
   outcome (scroll_loop drv pause m l n b) = Exhausted \<and>
   steps (scroll_loop drv pause m l n b) = max n m"
proof (induction drv pause m l n b rule: scroll_loop.induct)
  case (1 drv pause m l n b)
  show ?case
  proof (cases "n < m")
    case False
    then show ?thesis by (simp add: scroll_loop_exhausted)
  next
    case True
    from back_body [OF "1.prems"(3), of pause n] "1.prems"(1,2) obtain l' evs where
      b: "scroll_body drv pause l n b = Again l' l' evs"
         "l' = 400 \<or> l' = 800 \<or> l' = 1200" by blast
    from b(2) have "l' = 0 \<or> l' = 400 \<or> l' = 800 \<or> l' = 1200" by simp
    from "1.IH" [OF True b(1) "1.prems"(1) refl this] True b(1) show ?thesis
      by (simp add: scroll_loop_again)
  qed
qed

lemma back_first_two:
  "2 \<le> m \<Longrightarrow>
   take 2 (offsets_read (trace (scroll_loop back_driver pause m 0 0 0))) = [800, 400]"
proof -
  assume m: "2 \<le> m"
  from back_body [of 0 pause 0] obtain e1 where
    a: "scroll_body back_driver pause 0 0 0 = Again 800 800 e1" "offsets_read e1 = [800]"
    by auto
  from back_body [of 800 pause 1] obtain e2 where
    b: "scroll_body back_driver pause 800 1 800 = Again 400 400 e2" "offsets_read e2 = [400]"
    by auto
  from m a b show ?thesis
    by (simp add: scroll_loop_again [of 0 m] scroll_loop_again [of 1 m] offsets_read_append)
qed

text \<open>
  Claim C9 as stated fails: the loop tests \<open>new_height == last_height\<close>, so an offset
  that fails to advance by going back does not stop it. On the page of \<open>back_driver\<close>
  the second offset read is 400 after 800, and the loop still runs all 100 passes.
\<close>

theorem gentle_scroll_goes_back_counterexample:
  "take 2 (offsets_read (trace (gentle_scroll back_driver (3 / 20) default_max_steps 0)))
     = [800, 400]
   \<and> (400 :: real) < 800
   \<and> outcome (gentle_scroll back_driver (3 / 20) default_max_steps 0) = Exhausted
   \<and> steps (gentle_scroll back_driver (3 / 20) default_max_steps 0) = 100"
  using back_loop [OF refl refl, of 0 "3 / 20" default_max_steps 0]
    back_first_two [of default_max_steps "3 / 20"]
  by (simp add: gentle_scroll_def default_max_steps_def)


section \<open>Properties of the purge\<close>

lemma map_of_fs_remove: "map_of (fs_remove p fls) q = (if q = p then None else map_of fls q)"
  by (induction fls) (auto simp: fs_remove_def)

lemma map_of_fs_write:
  "map_of (fs_write p b fls) q = (if q = p then Some (File b) else map_of fls q)"
  by (simp add: fs_write_def map_of_fs_remove)











section \<open>Properties of the run\<close>

lemma tallied_init: "tallied [] totals_init"
  by (auto simp: tallied_def totals_init_def count_status_def)

lemma incr_tallied:
  assumes "tallied its t" and "status it = ''ok'' \<or> status it = ''fail'' \<or> status it = ''no_trainer''"
  shows "\<exists>t'. incr t (status it) = Inr t' \<and> tallied (its @ [it]) t'"
  using assms by (auto simp: tallied_def incr_def count_status_def)

lemma count_item_tallied:
  assumes "tallied (per_item st) (totals st)"
    and "status it = ''ok'' \<or> status it = ''fail'' \<or> status it = ''no_trainer''"
  shows "\<exists>t'. count_item it st = Inr (st\<lparr>per_item := per_item st @ [it], totals := t'\<rparr>) \<and>
              tallied (per_item st @ [it]) t'"
  using incr_tallied [OF assms] by (auto simp: count_item_def)


lemma state_update_eq:
  "st\<lparr>per_item := a, totals := b\<rparr> = \<lparr>per_item = a, totals = b, files = files st\<rparr>"
  by (cases st) simp

lemma count_item_ex:
  assumes "tallied (per_item st) (totals st)"
    and "status it = ''ok'' \<or> status it = ''fail'' \<or> status it = ''no_trainer''"
  shows "\<exists>t'. count_item it st = Inr \<lparr>per_item = per_item st @ [it], totals = t', files = files st\<rparr> \<and>
              tallied (per_item st @ [it]) t'"
  using incr_tallied [OF assms] by (auto simp: count_item_def state_update_eq)

lemma try_compare_raise:
  "compare_pair env (base_dir p, name) (shots_dir p, name) (files st) = Inl e \<Longrightarrow>
   try_compare env p u name st = Inl (e, st)"
  by (simp add: try_compare_def)

lemma try_compare_save_raise:
  "compare_pair env (base_dir p, name) (shots_dir p, name) (files st) = Inr m \<Longrightarrow>
   \<not> float_ge (ssim m) (ssim_threshold p) \<Longrightarrow>
   save_diff_image env (diff_vis m) (diffs_dir p, ''diff_'' @ name) (files st) = Inl e \<Longrightarrow>
   try_compare env p u name st = Inl (e, st)"
  by (simp add: try_compare_def)

lemma try_compare_ok:
  assumes "tallied (per_item st) (totals st)"
    and "compare_pair env (base_dir p, name) (shots_dir p, name) (files st) = Inr m"
    and "float_ge (ssim m) (ssim_threshold p)"
  shows "\<exists>it t'. try_compare env p u name st =
           Inr \<lparr>per_item = per_item st @ [it], totals = t', files = files st\<rparr> \<and>
         tallied (per_item st @ [it]) t' \<and> url it = u \<and> status it = ''ok'' \<and>
         metrics it = Some (ssim m, mse m) \<and> diff it = Some None \<and> reason it = None"
proof -
  define it where "it = \<lparr>url = u, status = ''ok'', metrics = Some (ssim m, mse m),
     reason = None, current = Some (str_path (shots_dir p, name)),
     trainer = str_path (base_dir p, name), diff = Some None\<rparr>"
  have st: "status it = ''ok''" by (simp add: it_def)
  from incr_tallied [OF assms(1), of it] st obtain t' where
    t: "incr (totals st) ''ok'' = Inr t'" "tallied (per_item st @ [it]) t'" by auto
  have "try_compare env p u name st =
      Inr \<lparr>per_item = per_item st @ [it], totals = t', files = files st\<rparr>"
    using assms(2,3) t(1) by (simp add: try_compare_def it_def)
  with t(2) show ?thesis
    by (intro exI [of _ it] exI [of _ t']) (simp add: it_def)
qed

lemma try_compare_fail:
  assumes "tallied (per_item st) (totals st)"
    and "compare_pair env (base_dir p, name) (shots_dir p, name) (files st) = Inr m"
    and "\<not> float_ge (ssim m) (ssim_threshold p)"
    and "save_diff_image env (diff_vis m) (diffs_dir p, ''diff_'' @ name) (files st) = Inr fls'"
  shows "\<exists>it t'. try_compare env p u name st =
           Inr \<lparr>per_item = per_item st @ [it], totals = t', files = fls'\<rparr> \<and>
         tallied (per_item st @ [it]) t' \<and> url it = u \<and> status it = ''fail'' \<and>
         metrics it = Some (ssim m, mse m) \<and>
         diff it = Some (Some (str_path (diffs_dir p, ''diff_'' @ name))) \<and> reason it = None"
proof -
  define it where "it = \<lparr>url = u, status = ''fail'', metrics = Some (ssim m, mse m),
     reason = None, current = Some (str_path (shots_dir p, name)),
     trainer = str_path (base_dir p, name),
     diff = Some (Some (str_path (diffs_dir p, ''diff_'' @ name)))\<rparr>"
  have st: "status it = ''fail''" by (simp add: it_def)
  from incr_tallied [OF assms(1), of it] st obtain t' where
    t: "incr (totals st) ''fail'' = Inr t'" "tallied (per_item st @ [it]) t'" by auto
  have "try_compare env p u name st =
      Inr \<lparr>per_item = per_item st @ [it], totals = t', files = fls'\<rparr>"
    using assms(2,3,4) t(1) by (simp add: try_compare_def it_def)
  with t(2) show ?thesis
    by (intro exI [of _ it] exI [of _ t']) (simp add: it_def)
qed


lemma process_url_no_trainer:
  assumes "tallied (per_item st) (totals st)"
    and "\<not> path_exists (base_dir p, sanitize_filename u default_max_len) (files st)"
  shows "\<exists>it t'. process_url env p u st =
           Inr \<lparr>per_item = per_item st @ [it], totals = t', files = files st\<rparr> \<and>
         tallied (per_item st @ [it]) t' \<and> url it = u \<and> status it = ''no_trainer'' \<and>
         metrics it = None \<and> diff it = None \<and>
         reason it = Some (''Trainer image not found: '' @ sanitize_filename u default_max_len)"
proof -
  define name where "name = sanitize_filename u default_max_len"
  define it where "it = \<lparr>url = u, status = ''no_trainer'', metrics = None,
     reason = Some (''Trainer image not found: '' @ name),
     current = (if path_exists (shots_dir p, name) (files st)
                then Some (str_path (shots_dir p, name)) else None),
     trainer = str_path (base_dir p, name), diff = None\<rparr>"
  have "status it = ''no_trainer''" by (simp add: it_def)
  with count_item_ex [OF assms(1), of it] obtain t' where
    t: "count_item it st = Inr \<lparr>per_item = per_item st @ [it], totals = t', files = files st\<rparr>"
       "tallied (per_item st @ [it]) t'" by auto
  have "process_url env p u st = count_item it st"
    using assms(2) by (simp add: process_url_def Let_def it_def name_def)
  with t show ?thesis
    by (intro exI [of _ it] exI [of _ t']) (simp add: it_def name_def)
qed

lemma process_url_no_current:
  assumes "tallied (per_item st) (totals st)"
    and "path_exists (base_dir p, sanitize_filename u default_max_len) (files st)"
    and "\<not> path_exists (shots_dir p, sanitize_filename u default_max_len) (files st)"
  shows "\<exists>it t'. process_url env p u st =
           Inr \<lparr>per_item = per_item st @ [it], totals = t', files = files st\<rparr> \<and>
         tallied (per_item st @ [it]) t' \<and> url it = u \<and> status it = ''fail'' \<and>
         metrics it = None \<and> diff it = None \<and>
         reason it = Some (''Current screenshot not found: '' @ sanitize_filename u default_max_len)"
proof -
  define name where "name = sanitize_filename u default_max_len"
  define it where "it = \<lparr>url = u, status = ''fail'', metrics = None,
     reason = Some (''Current screenshot not found: '' @ name),
     current = Some (str_path (shots_dir p, name)),
     trainer = str_path (base_dir p, name), diff = None\<rparr>"
  have "status it = ''fail''" by (simp add: it_def)
  with count_item_ex [OF assms(1), of it] obtain t' where
    t: "count_item it st = Inr \<lparr>per_item = per_item st @ [it], totals = t', files = files st\<rparr>"
       "tallied (per_item st @ [it]) t'" by auto
  have "process_url env p u st = count_item it st"
    using assms(2,3) by (simp add: process_url_def Let_def it_def name_def)
  with t show ?thesis
    by (intro exI [of _ it] exI [of _ t']) (simp add: it_def name_def)
qed

lemma process_url_raise:
  assumes "tallied (per_item st) (totals st)"
    and "path_exists (base_dir p, sanitize_filename u default_max_len) (files st)"
    and "path_exists (shots_dir p, sanitize_filename u default_max_len) (files st)"
    and "try_compare env p u (sanitize_filename u default_max_len) st = Inl (e, st)"
  shows "\<exists>it t'. process_url env p u st =
           Inr \<lparr>per_item = per_item st @ [it], totals = t', files = files st\<rparr> \<and>
         tallied (per_item st @ [it]) t' \<and> url it = u \<and> status it = ''fail'' \<and>
         metrics it = None \<and> diff it = None \<and>
         reason it = Some (''Comparison error: '' @ str_exn e)"
proof -
  define name where "name = sanitize_filename u default_max_len"
  define it where "it = \<lparr>url = u, status = ''fail'', metrics = None,
     reason = Some (''Comparison error: '' @ str_exn e),
     current = Some (str_path (shots_dir p, name)),
     trainer = str_path (base_dir p, name), diff = None\<rparr>"
  have "status it = ''fail''" by (simp add: it_def)
  with count_item_ex [OF assms(1), of it] obtain t' where
    t: "count_item it st = Inr \<lparr>per_item = per_item st @ [it], totals = t', files = files st\<rparr>"
       "tallied (per_item st @ [it]) t'" by auto
  have "process_url env p u st = count_item it st"
    using assms(2,3,4) by (simp add: process_url_def Let_def it_def name_def)
  with t show ?thesis
    by (intro exI [of _ it] exI [of _ t']) (simp add: it_def name_def)
qed

lemma process_url_compared:
  assumes "path_exists (base_dir p, sanitize_filename u default_max_len) (files st)"
    and "path_exists (shots_dir p, sanitize_filename u default_max_len) (files st)"
    and "try_compare env p u (sanitize_filename u default_max_len) st = Inr st'"
  shows "process_url env p u st = Inr st'"
  using assms by (simp add: process_url_def Let_def)


lemma save_diff_image_Inr:
  "save_diff_image env dv q fls = Inr fls' \<Longrightarrow>
   \<exists>bytes. image_encode env dv = Inr bytes \<and> fls' = fs_write q bytes fls"
  by (auto simp: save_diff_image_def write_file_def split: sum.splits option.splits node.splits)

lemma step_frame_refl: "step_frame p fls fls"
  by (simp add: step_frame_def)

lemma step_frame_trans: "step_frame p a b \<Longrightarrow> step_frame p b c \<Longrightarrow> step_frame p a c"
  by (simp add: step_frame_def)

lemma step_frame_write: "step_frame p fls (fs_write (diffs_dir p, n) bytes fls)"
  by (auto simp: step_frame_def path_exists_def map_of_fs_write)

lemma process_url_step:
  assumes t: "tallied (per_item st) (totals st)"
  shows "\<exists>it t' fls'. process_url env p u st =
           Inr \<lparr>per_item = per_item st @ [it], totals = t', files = fls'\<rparr> \<and>
         tallied (per_item st @ [it]) t' \<and> url it = u \<and> step_frame p (files st) fls'"
proof -
  define name where "name = sanitize_filename u default_max_len"
  show ?thesis
  proof (cases "path_exists (base_dir p, name) (files st)")
    case False
    with process_url_no_trainer [OF t, of p u env] show ?thesis
      unfolding name_def using step_frame_refl by blast
  next
    case base: True
    show ?thesis
    proof (cases "path_exists (shots_dir p, name) (files st)")
      case False
      with base process_url_no_current [OF t, of p u env] show ?thesis
        unfolding name_def using step_frame_refl by blast
    next
      case cur: True
      note ex = base [unfolded name_def] cur [unfolded name_def]
      show ?thesis
      proof (cases "compare_pair env (base_dir p, name) (shots_dir p, name) (files st)")
        case (Inl e)
        from try_compare_raise [OF Inl] process_url_raise [OF t ex, of env e]
        show ?thesis unfolding name_def using step_frame_refl by blast
      next
        case (Inr m)
        show ?thesis
        proof (cases "float_ge (ssim m) (ssim_threshold p)")
          case True
          from try_compare_ok [OF t Inr True, of u] obtain it t' where
            r: "try_compare env p u name st =
                  Inr \<lparr>per_item = per_item st @ [it], totals = t', files = files st\<rparr>"
               "tallied (per_item st @ [it]) t'" "url it = u" by blast
          from process_url_compared [OF ex r(1) [unfolded name_def]] r(2,3)
          show ?thesis using step_frame_refl by blast
        next
          case False
          show ?thesis
          proof (cases "save_diff_image env (diff_vis m) (diffs_dir p, ''diff_'' @ name) (files st)")
            case (Inl e)
            from try_compare_save_raise [OF Inr False Inl] process_url_raise [OF t ex, of env e]
            show ?thesis unfolding name_def using step_frame_refl by blast
          next
            case save: (Inr fls')
            from try_compare_fail [OF t Inr False save, of u] obtain it t' where
              r: "try_compare env p u name st =
                    Inr \<lparr>per_item = per_item st @ [it], totals = t', files = fls'\<rparr>"
                 "tallied (per_item st @ [it]) t'" "url it = u" by blast
            from save_diff_image_Inr [OF save] have "step_frame p (files st) fls'"
              using step_frame_write by blast
            with process_url_compared [OF ex r(1) [unfolded name_def]] r(2,3)
            show ?thesis by blast
          qed
        qed
      qed
    qed
  qed
qed


lemma compare_loop_append:
  "compare_loop env p (us @ vs) st =
     (case compare_loop env p us st of Inl e \<Rightarrow> Inl e | Inr st' \<Rightarrow> compare_loop env p vs st')"
  by (induction us arbitrary: st) (auto split: sum.splits)

lemma compare_loop_total:
  assumes "tallied (per_item st) (totals st)"
  shows "\<exists>st' its. compare_loop env p us st = Inr st' \<and>
           tallied (per_item st') (totals st') \<and>
           per_item st' = per_item st @ its \<and> map url its = us \<and>
           step_frame p (files st) (files st')"
  using assms
proof (induction us arbitrary: st)
  case Nil
  then show ?case by (simp add: step_frame_refl)
next
  case (Cons u us)
  from process_url_step [OF Cons.prems, of env p u] obtain it t' fls' where
    s: "process_url env p u st = Inr \<lparr>per_item = per_item st @ [it], totals = t', files = fls'\<rparr>"
       "tallied (per_item st @ [it]) t'" "url it = u" "step_frame p (files st) fls'"
    by blast
  let ?st1 = "\<lparr>per_item = per_item st @ [it], totals = t', files = fls'\<rparr>"
  from s(2) have "tallied (per_item ?st1) (totals ?st1)" by simp
  from Cons.IH [OF this] obtain st' its where
    l: "compare_loop env p us ?st1 = Inr st'" "tallied (per_item st') (totals st')"
       "per_item st' = per_item ?st1 @ its" "map url its = us"
       "step_frame p (files ?st1) (files st')"
    by blast
  have "compare_loop env p (u # us) st = Inr st'" using s(1) l(1) by simp
  moreover have "per_item st' = per_item st @ (it # its)" using l(3) by simp
  moreover have "map url (it # its) = u # us" using s(3) l(4) by simp
  moreover have "step_frame p (files st) (files st')"
    using s(4) l(5) step_frame_trans by fastforce
  ultimately show ?case using l(2)
    by (intro exI [of _ st'] exI [of _ "it # its"]) simp
qed

lemma compare_loop_nth:
  assumes t0: "tallied (per_item st0) (totals st0)"
    and run: "compare_loop env p us st0 = Inr stF"
    and i: "i < length us"
  shows "\<exists>st st'. compare_loop env p (take i us) st0 = Inr st \<and>
           tallied (per_item st) (totals st) \<and>
           step_frame p (files st0) (files st) \<and>
           process_url env p (us ! i) st = Inr st' \<and>
           per_item st' = per_item st @ [per_item stF ! (length (per_item st0) + i)] \<and>
           step_frame p (files st') (files stF)"
proof -
  from compare_loop_total [OF t0, of env p "take i us"] obtain st its where
    a: "compare_loop env p (take i us) st0 = Inr st" "tallied (per_item st) (totals st)"
       "per_item st = per_item st0 @ its" "map url its = take i us"
       "step_frame p (files st0) (files st)"
    by blast
  from a(4) i have len: "length its = i"
    by (metis length_map length_take min.absorb2 less_imp_le_nat)
  from process_url_step [OF a(2), of env p "us ! i"] obtain it t' fls' where
    s: "process_url env p (us ! i) st =
          Inr \<lparr>per_item = per_item st @ [it], totals = t', files = fls'\<rparr>"
       "tallied (per_item st @ [it]) t'"
    by blast
  let ?st1 = "\<lparr>per_item = per_item st @ [it], totals = t', files = fls'\<rparr>"
  from s(2) have "tallied (per_item ?st1) (totals ?st1)" by simp
  from compare_loop_total [OF this, of env p "drop (Suc i) us"] obtain st2 its2 where
    b: "compare_loop env p (drop (Suc i) us) ?st1 = Inr st2"
       "per_item st2 = per_item ?st1 @ its2" "step_frame p (files ?st1) (files st2)"
    by blast
  have "us = take i us @ (us ! i # drop (Suc i) us)"
    using i by (simp add: id_take_nth_drop [symmetric])
  then have "compare_loop env p us st0 = compare_loop env p (take i us @ (us ! i # drop (Suc i) us)) st0"
    by simp
  also have "\<dots> = Inr st2"
    using a(1) s(1) b(1) by (simp add: compare_loop_append)
  finally have "stF = st2" using run by simp
  with b(2) a(3) len have "per_item stF ! (length (per_item st0) + i) = it"
    by (simp add: nth_append)
  with a s(1) b(3) \<open>stF = st2\<close> show ?thesis
    by (intro exI [of _ st] exI [of _ ?st1]) simp
qed


lemma write_file_mono:
  "write_file env q bytes fls = Inr fls' \<Longrightarrow> path_exists x fls \<Longrightarrow> path_exists x fls'"
  by (auto simp: write_file_def path_exists_def map_of_fs_write
      split: option.splits node.splits)

lemma write_report_mono:
  "write_report env rep d fls = Inr (rp, fls') \<Longrightarrow> path_exists x fls \<Longrightarrow> path_exists x fls'"
  by (auto simp: write_report_def Let_def split: option.splits sum.splits dest: write_file_mono)

lemma run_report:
  assumes "run_and_compare env p fls = Inr (Report r, flsF)"
  shows "\<exists>ex fls1 us st. capture_phase env p fls = Inr (ex, fls1) \<and>
           list_urls env (urls_path p) fls1 = Inr us \<and>
           compare_loop env p us (init_state fls1) = Inr st \<and>
           items r = per_item st \<and> report_totals r = totals st \<and>
           (\<forall>x. path_exists x (files st) \<longrightarrow> path_exists x flsF)"
  using assms
  by (auto simp: run_and_compare_def Let_def split: option.splits sum.splits if_splits prod.splits
      dest: write_report_mono)

lemma tallied_init_state: "tallied (per_item (init_state fls)) (totals (init_state fls))"
  by (simp add: init_state_def tallied_init)


lemma run_item:
  assumes run: "run_and_compare env p fls = Inr (Report r, flsF)"
    and cap: "capture_phase env p fls = Inr (ex, fls1)"
    and urls: "list_urls env (urls_path p) fls1 = Inr us"
    and i: "i < length us"
    and at: "files_at env p us fls1 i = Some fls_i"
  shows "\<exists>st st'. files st = fls_i \<and> tallied (per_item st) (totals st) \<and>
           process_url env p (us ! i) st = Inr st' \<and>
           per_item st' = per_item st @ [items r ! i] \<and>
           files_at env p us fls1 (Suc i) = Some (files st') \<and>
           (\<forall>x. path_exists x (files st') \<longrightarrow> path_exists x flsF)"
proof -
  from run_report [OF run] cap urls obtain stF where
    f: "compare_loop env p us (init_state fls1) = Inr stF" "items r = per_item stF"
       "\<forall>x. path_exists x (files stF) \<longrightarrow> path_exists x flsF"
    by auto
  from compare_loop_nth [OF tallied_init_state f(1) i] obtain st st' where
    n: "compare_loop env p (take i us) (init_state fls1) = Inr st"
       "tallied (per_item st) (totals st)"
       "process_url env p (us ! i) st = Inr st'"
       "per_item st' = per_item st @ [per_item stF ! (length (per_item (init_state fls1)) + i)]"
       "step_frame p (files st') (files stF)"
    by blast
  from n(1) at have a: "files st = fls_i" by (simp add: files_at_def)
  have "compare_loop env p (take (Suc i) us) (init_state fls1) = Inr st'"
    using i n(1,3) by (simp add: take_Suc_conv_app_nth compare_loop_append)
  then have b: "files_at env p us fls1 (Suc i) = Some (files st')"
    by (simp add: files_at_def)
  from n(4) f(2) have c: "per_item st' = per_item st @ [items r ! i]"
    by (simp add: init_state_def)
  from n(5) f(3) have d: "\<forall>x. path_exists x (files st') \<longrightarrow> path_exists x flsF"
    by (simp add: step_frame_def)
  from a n(2,3) b c d show ?thesis
    by (intro exI [of _ st] exI [of _ st']) simp
qed

lemma count_status_sum:
  "list_all (\<lambda>it. status it = ''ok'' \<or> status it = ''fail'' \<or> status it = ''no_trainer'') its \<Longrightarrow>
   count_status ''ok'' its + count_status ''fail'' its + count_status ''no_trainer'' its
     = int (length its)"
  by (induction its) (auto simp: count_status_def)

lemma tallied_dom: "tallied its t \<Longrightarrow> dom t = {''ok'', ''warn'', ''fail'', ''no_trainer''}"
  unfolding tallied_def by (elim conjE)

lemma tallied_warn: "tallied its t \<Longrightarrow> t ''warn'' = Some 0"
  unfolding tallied_def by (elim conjE)

lemma tallied_statuses:
  "tallied its t \<Longrightarrow>
   list_all (\<lambda>it. status it = ''ok'' \<or> status it = ''fail'' \<or> status it = ''no_trainer'') its"
  unfolding tallied_def by (elim conjE)

lemma tallied_counts:
  "tallied its t \<Longrightarrow>
   the (t ''ok'') + the (t ''warn'') + the (t ''fail'') + the (t ''no_trainer'')
     = count_status ''ok'' its + count_status ''fail'' its + count_status ''no_trainer'' its"
  unfolding tallied_def by (elim conjE) simp

lemma sum_four_keys:
  "(\<Sum>k\<in>{''ok'', ''warn'', ''fail'', ''no_trainer''}. f k) =
   f ''ok'' + f ''warn'' + f ''fail'' + (f ''no_trainer'' :: int)"
  by simp

lemma tallied_sum:
  assumes "tallied its t"
  shows "(\<Sum>k\<in>dom t. the (t k)) = int (length its)"
  unfolding tallied_dom [OF assms] sum_four_keys tallied_counts [OF assms]
  using count_status_sum [OF tallied_statuses [OF assms]] .

lemma tallied_no_warn:
  assumes "tallied its t" "it \<in> set its"
  shows "status it \<noteq> ''warn''"
proof -
  from tallied_statuses [OF assms(1)] assms(2)
  have "status it = ''ok'' \<or> status it = ''fail'' \<or> status it = ''no_trainer''"
    by (simp add: list_all_iff)
  then show ?thesis by auto
qed

section \<open>Properties of the report\<close>

lemma report_ofD: "report_of x = Some r \<Longrightarrow> \<exists>f. x = Inr (Report r, f)"
  by (auto simp: report_of_def split: sum.splits prod.splits response.splits)

lemma demo_report: "report_of (run_and_compare env_demo params_demo files_demo) \<noteq> None"
  by code_simp

lemma demo_capture: "capture_phase env_demo params_demo files_demo = Inr (exec_demo, files_captured)"
  by code_simp

lemma demo_urls_parsed: "list_urls env_demo (urls_path params_demo) files_captured = Inr demo_urls"
  by code_simp

lemma demo_at0: "files_at env_demo params_demo demo_urls files_captured 0 = Some files_captured"
  by code_simp

lemma demo_at2: "files_at env_demo params_demo demo_urls files_captured 2 = Some files_captured"
  by code_simp

lemma demo_at3: "files_at env_demo params_demo demo_urls files_captured 3 = Some files_changed"
  by code_simp

lemma run_tallied:
  assumes "run_and_compare env p fls = Inr (Report r, flsF)"
  shows "\<exists>ex fls1 us. capture_phase env p fls = Inr (ex, fls1) \<and>
           list_urls env (urls_path p) fls1 = Inr us \<and>
           map url (items r) = us \<and> tallied (items r) (report_totals r)"
proof -
  from run_report [OF assms] obtain ex fls1 us st where
    a: "capture_phase env p fls = Inr (ex, fls1)" "list_urls env (urls_path p) fls1 = Inr us"
       "compare_loop env p us (init_state fls1) = Inr st" "items r = per_item st"
       "report_totals r = totals st"
    by blast
  from compare_loop_total [OF tallied_init_state, of env p us fls1] a(3) obtain its where
    b: "tallied (per_item st) (totals st)" "per_item st = per_item (init_state fls1) @ its"
       "map url its = us"
    by auto
  from b(2,3) have "map url (per_item st) = us" by (simp add: init_state_def)
  with a b(1) show ?thesis by auto
qed

text \<open>
  Claim C5. The comparison pass over any URL list, from any file system, completes with
  exactly one item per URL, in the order of the list, and with counters that add up to
  the number of URLs. So in every report of a run the items are as many as the parsed
  URLs, the \<open>i\<close>-th item carries the \<open>i\<close>-th URL (also when two URLs share one Capture
  Key), and the counters of \<open>totals\<close> add up to the number of URLs.
\<close>

theorem run_one_item_per_url:
  "(\<exists>st. compare_loop env p us (init_state fls1) = Inr st \<and> map url (per_item st) = us \<and>
         (\<Sum>k\<in>dom (totals st). the (totals st k)) = int (length us))
   \<and> (run_and_compare env p fls = Inr (Report r, flsF) \<longrightarrow>
        (\<exists>ex fls2 vs. capture_phase env p fls = Inr (ex, fls2) \<and>
           list_urls env (urls_path p) fls2 = Inr vs \<and>
           length (items r) = length vs \<and>
           (\<forall>i<length vs. url (items r ! i) = vs ! i) \<and>
           (\<Sum>k\<in>dom (report_totals r). the (report_totals r k)) = int (length vs)))"
proof (intro conjI impI)
  from compare_loop_total [OF tallied_init_state, of env p us fls1] obtain st its where
    b: "compare_loop env p us (init_state fls1) = Inr st" "tallied (per_item st) (totals st)"
       "per_item st = per_item (init_state fls1) @ its" "map url its = us"
    by blast
  from b(3,4) have m: "map url (per_item st) = us" by (simp add: init_state_def)
  then have "length (per_item st) = length us" by (metis length_map)
  with tallied_sum [OF b(2)] have "(\<Sum>k\<in>dom (totals st). the (totals st k)) = int (length us)"
    by simp
  with b(1) m show "\<exists>st. compare_loop env p us (init_state fls1) = Inr st \<and>
      map url (per_item st) = us \<and>
      (\<Sum>k\<in>dom (totals st). the (totals st k)) = int (length us)"
    by blast
next
  assume run: "run_and_compare env p fls = Inr (Report r, flsF)"
  from run_tallied [OF run] obtain ex fls2 vs where
    a: "capture_phase env p fls = Inr (ex, fls2)" "list_urls env (urls_path p) fls2 = Inr vs"
       "map url (items r) = vs" "tallied (items r) (report_totals r)"
    by blast
  from a(3) have len: "length (items r) = length vs" by (metis length_map)
  from a(3) have nth: "\<forall>i<length vs. url (items r ! i) = vs ! i"
    using len by (metis nth_map)
  from tallied_sum [OF a(4)] len
  have "(\<Sum>k\<in>dom (report_totals r). the (report_totals r k)) = int (length vs)" by simp
  with a(1,2) len nth show "\<exists>ex fls2 vs. capture_phase env p fls = Inr (ex, fls2) \<and>
      list_urls env (urls_path p) fls2 = Inr vs \<and> length (items r) = length vs \<and>
      (\<forall>i<length vs. url (items r ! i) = vs ! i) \<and>
      (\<Sum>k\<in>dom (report_totals r). the (report_totals r k)) = int (length vs)"
    by blast
qed

theorem run_one_item_per_url_witness:
  "map_option (\<lambda>r. map url (items r)) (report_of (run_and_compare env_demo params_demo files_demo))
     = Some demo_urls
   \<and> map_option (\<lambda>r. \<Sum>k\<in>dom (report_totals r). the (report_totals r k))
        (report_of (run_and_compare env_demo params_demo files_demo)) = Some 8
   \<and> sanitize_filename (demo_urls ! 5) default_max_len
       = sanitize_filename (demo_urls ! 6) default_max_len
   \<and> demo_urls ! 5 \<noteq> demo_urls ! 6"
proof -
  from demo_report obtain r where
    r: "report_of (run_and_compare env_demo params_demo files_demo) = Some r" by blast
  from report_ofD [OF r] obtain f where
    run: "run_and_compare env_demo params_demo files_demo = Inr (Report r, f)" by blast
  from run run_one_item_per_url [of env_demo params_demo demo_urls files_captured files_demo r f]
  obtain ex fls2 vs where
    a: "capture_phase env_demo params_demo files_demo = Inr (ex, fls2)"
       "list_urls env_demo (urls_path params_demo) fls2 = Inr vs"
       "length (items r) = length vs" "\<forall>i<length vs. url (items r ! i) = vs ! i"
       "(\<Sum>k\<in>dom (report_totals r). the (report_totals r k)) = int (length vs)"
    by blast
  from a(1) demo_capture have "fls2 = files_captured" by simp
  with a(2) demo_urls_parsed have vs: "vs = demo_urls" by simp
  have "map url (items r) = vs"
    using a(3,4) by (simp add: list_eq_iff_nth_eq)
  moreover have "length demo_urls = 8" by (simp add: demo_urls_def)
  moreover have "sanitize_filename (demo_urls ! 5) default_max_len
       = sanitize_filename (demo_urls ! 6) default_max_len" by code_simp
  moreover have "demo_urls ! 5 \<noteq> demo_urls ! 6" by code_simp
  ultimately show ?thesis using r vs a(5) by simp
qed

text \<open>
  Claim C7. In every report of a run no item has the status \<open>warn\<close> (each has \<open>ok\<close>,
  \<open>fail\<close> or the missing-trainer status) and the counter \<open>warn\<close> is 0.
\<close>

theorem run_never_warn:
  assumes "run_and_compare env p fls = Inr (Report r, flsF)"
  shows "(\<forall>it\<in>set (items r). status it \<noteq> ''warn'' \<and>
            (status it = ''ok'' \<or> status it = ''fail'' \<or> status it = ''no_trainer''))
         \<and> report_totals r ''warn'' = Some 0"
proof -
  from run_tallied [OF assms] have t: "tallied (items r) (report_totals r)" by blast
  from tallied_statuses [OF t]
  have "\<forall>it\<in>set (items r). status it = ''ok'' \<or> status it = ''fail'' \<or> status it = ''no_trainer''"
    by (simp add: list_all_iff)
  with tallied_no_warn [OF t] tallied_warn [OF t] show ?thesis by blast
qed

theorem run_never_warn_witness:
  "map_option (\<lambda>r. report_totals r ''warn'')
     (report_of (run_and_compare env_demo params_demo files_demo)) = Some (Some 0)
   \<and> map_option (\<lambda>r. list_all (\<lambda>it. status it \<noteq> ''warn'') (items r))
        (report_of (run_and_compare env_demo params_demo files_demo)) = Some True
   \<and> map_option (\<lambda>r. length (items r))
        (report_of (run_and_compare env_demo params_demo files_demo)) = Some 8"
proof -
  from demo_report obtain r where
    r: "report_of (run_and_compare env_demo params_demo files_demo) = Some r" by blast
  from report_ofD [OF r] obtain f where
    run: "run_and_compare env_demo params_demo files_demo = Inr (Report r, f)" by blast
  have len: "map_option (\<lambda>r. length (items r))
        (report_of (run_and_compare env_demo params_demo files_demo)) = Some 8"
    by code_simp
  from run_never_warn [OF run] r len show ?thesis
    by (simp add: list_all_iff)
qed

section \<open>Properties of the verdicts\<close>

lemma files_at_frame:
  assumes "files_at env p us fls1 i = Some fls_i"
  shows "step_frame p fls1 fls_i"
proof -
  from compare_loop_total [OF tallied_init_state, of env p "take i us" fls1] obtain st where
    "compare_loop env p (take i us) (init_state fls1) = Inr st"
    "step_frame p (files (init_state fls1)) (files st)" by blast
  with assms show ?thesis by (simp add: files_at_def init_state_def)
qed

lemma files_at_base_dir:
  "files_at env p us fls1 i = Some fls_i \<Longrightarrow> diffs_dir p \<noteq> base_dir p \<Longrightarrow>
   path_exists (base_dir p, n) fls_i = path_exists (base_dir p, n) fls1"
  using files_at_frame [of env p us fls1 i fls_i]
  by (simp add: step_frame_def path_exists_def)

lemma process_url_no_trainer_env:
  "\<not> path_exists (base_dir p, sanitize_filename u default_max_len) (files st) \<Longrightarrow>
   process_url env' p u st = process_url env p u st"
  by (simp add: process_url_def Let_def)

lemma last_item:
  "st' = \<lparr>per_item = xs @ [it], totals = t, files = f\<rparr> \<Longrightarrow> per_item st' = xs @ [it'] \<Longrightarrow>
   it' = it \<and> files st' = f"
  by simp

text \<open>
  Claim C1, as amended. When the turn of a URL comes and its trainer image does not
  exist, its item gets the status \<open>no_trainer\<close>, with a reason and without metrics or
  diff; the file system is left as it was, and the step is the same whatever decoder,
  metric and encoder the environment holds, so no comparison is attempted. The keys of
  the report's totals are \<open>ok\<close>, \<open>warn\<close>, \<open>fail\<close> and \<open>no_trainer\<close>.
\<close>

theorem run_no_trainer:
  assumes run: "run_and_compare env p fls = Inr (Report r, flsF)"
    and cap: "capture_phase env p fls = Inr (ex, fls1)"
    and urls: "list_urls env (urls_path p) fls1 = Inr us"
    and i: "i < length us"
    and at: "files_at env p us fls1 i = Some fls_i"
    and nb: "\<not> path_exists (base_dir p, sanitize_filename (us ! i) default_max_len) fls_i"
  shows "status (items r ! i) = ''no_trainer''
    \<and> url (items r ! i) = us ! i
    \<and> metrics (items r ! i) = None
    \<and> diff (items r ! i) = None
    \<and> reason (items r ! i)
        = Some (''Trainer image not found: '' @ sanitize_filename (us ! i) default_max_len)
    \<and> files_at env p us fls1 (Suc i) = Some fls_i
    \<and> (files st = fls_i \<longrightarrow> process_url env' p (us ! i) st = process_url env p (us ! i) st)
    \<and> dom (report_totals r) = {''ok'', ''warn'', ''fail'', ''no_trainer''}"
proof -
  from run_item [OF run cap urls i at] obtain st0 st' where
    s: "files st0 = fls_i" "tallied (per_item st0) (totals st0)"
       "process_url env p (us ! i) st0 = Inr st'"
       "per_item st' = per_item st0 @ [items r ! i]"
       "files_at env p us fls1 (Suc i) = Some (files st')"
    by blast
  from nb s(1) have nb0: "\<not> path_exists (base_dir p, sanitize_filename (us ! i) default_max_len) (files st0)"
    by simp
  from process_url_no_trainer [OF s(2) nb0, of env] s(3) obtain it t' where
    c: "st' = \<lparr>per_item = per_item st0 @ [it], totals = t', files = files st0\<rparr>"
       "url it = us ! i" "status it = ''no_trainer''" "metrics it = None" "diff it = None"
       "reason it = Some (''Trainer image not found: '' @ sanitize_filename (us ! i) default_max_len)"
    by auto
  from last_item [OF c(1) s(4)] have e: "items r ! i = it" "files st' = files st0" by simp_all
  from run_tallied [OF run] have "tallied (items r) (report_totals r)" by blast
  then have d: "dom (report_totals r) = {''ok'', ''warn'', ''fail'', ''no_trainer''}"
    by (rule tallied_dom)
  have ind: "files st = fls_i \<longrightarrow> process_url env' p (us ! i) st = process_url env p (us ! i) st"
    using nb by (simp add: process_url_no_trainer_env)
  from c(2-6) e s(1,5) d ind show ?thesis by simp
qed

theorem run_no_trainer_witness:
  "map_option (\<lambda>r. status (items r ! 0))
     (report_of (run_and_compare env_demo params_demo files_demo)) = Some ''no_trainer''
   \<and> map_option (\<lambda>r. metrics (items r ! 0))
        (report_of (run_and_compare env_demo params_demo files_demo)) = Some None
   \<and> map_option (\<lambda>r. dom (report_totals r))
        (report_of (run_and_compare env_demo params_demo files_demo))
       = Some {''ok'', ''warn'', ''fail'', ''no_trainer''}
   \<and> files_at env_demo params_demo demo_urls files_captured (Suc 0) = Some files_captured"
proof -
  from demo_report obtain r where
    r: "report_of (run_and_compare env_demo params_demo files_demo) = Some r" by blast
  from report_ofD [OF r] obtain f where
    run: "run_and_compare env_demo params_demo files_demo = Inr (Report r, f)" by blast
  have i: "0 < length demo_urls" by (simp add: demo_urls_def)
  have nb: "\<not> path_exists (base_dir params_demo, sanitize_filename (demo_urls ! 0) default_max_len)
      files_captured"
    by code_simp
  note t = run_no_trainer [OF run demo_capture demo_urls_parsed i demo_at0 nb,
      where st = "init_state files_captured" and env' = env_demo]
  from t have a: "status (items r ! 0) = ''no_trainer''" by (elim conjE)
  from t have b: "metrics (items r ! 0) = None" by (elim conjE)
  from t have c: "dom (report_totals r) = {''ok'', ''warn'', ''fail'', ''no_trainer''}"
    by (elim conjE)
  from t have d: "files_at env_demo params_demo demo_urls files_captured (Suc 0)
      = Some files_captured"
    by (elim conjE)
  show ?thesis unfolding r using a b c d by simp
qed

text \<open>
  Claim C1 as stated fails: the status given to a URL without a trainer image, and the
  fourth key of the totals, is \<open>no_trainer\<close>; there is no key \<open>no_baseline\<close>.
\<close>

theorem run_no_baseline_counterexample:
  "\<not> path_exists (base_dir params_demo, sanitize_filename (demo_urls ! 0) default_max_len)
      files_captured
   \<and> map_option (\<lambda>r. status (items r ! 0))
        (report_of (run_and_compare env_demo params_demo files_demo)) = Some ''no_trainer''
   \<and> ''no_trainer'' \<noteq> ''no_baseline''
   \<and> map_option (\<lambda>r. report_totals r ''no_baseline'')
        (report_of (run_and_compare env_demo params_demo files_demo)) = Some None
   \<and> map_option (\<lambda>r. report_totals r ''no_trainer'')
        (report_of (run_and_compare env_demo params_demo files_demo)) = Some (Some 1)"
  by code_simp

lemma process_url_status:
  assumes t: "tallied (per_item st) (totals st)"
    and base: "path_exists (base_dir p, sanitize_filename u default_max_len) (files st)"
    and cur: "path_exists (shots_dir p, sanitize_filename u default_max_len) (files st)"
    and cmp: "compare_pair env (base_dir p, sanitize_filename u default_max_len)
                (shots_dir p, sanitize_filename u default_max_len) (files st) = Inr m"
    and step: "process_url env p u st = Inr st'"
    and it: "per_item st' = per_item st @ [it]"
  shows "status it = (if float_ge (ssim m) (ssim_threshold p) then ''ok'' else ''fail'')"
proof (cases "float_ge (ssim m) (ssim_threshold p)")
  case True
  from try_compare_ok [OF t cmp True, of u] obtain it' t' where
    r: "try_compare env p u (sanitize_filename u default_max_len) st =
          Inr \<lparr>per_item = per_item st @ [it'], totals = t', files = files st\<rparr>"
       "status it' = ''ok''" by blast
  from process_url_compared [OF base cur r(1)] step
  have "st' = \<lparr>per_item = per_item st @ [it'], totals = t', files = files st\<rparr>" by simp
  from last_item [OF this it] r(2) True show ?thesis by simp
next
  case False
  show ?thesis
  proof (cases "save_diff_image env (diff_vis m)
      (diffs_dir p, ''diff_'' @ sanitize_filename u default_max_len) (files st)")
    case (Inl e)
    from process_url_raise [OF t base cur try_compare_save_raise [OF cmp False Inl]] step
    obtain it' t' where
      "st' = \<lparr>per_item = per_item st @ [it'], totals = t', files = files st\<rparr>"
      "status it' = ''fail''" by auto
    from last_item [OF this(1) it] this(2) False show ?thesis by simp
  next
    case (Inr fls')
    from try_compare_fail [OF t cmp False Inr, of u] obtain it' t' where
      r: "try_compare env p u (sanitize_filename u default_max_len) st =
            Inr \<lparr>per_item = per_item st @ [it'], totals = t', files = fls'\<rparr>"
         "status it' = ''fail''" by blast
    from process_url_compared [OF base cur r(1)] step
    have "st' = \<lparr>per_item = per_item st @ [it'], totals = t', files = fls'\<rparr>" by simp
    from last_item [OF this it] r(2) False show ?thesis by simp
  qed
qed

text \<open>
  Claim C3. For a URL whose trainer image and current capture both exist and whose
  metrics were computed, the status is \<open>ok\<close> exactly when \<open>ssim >= ssim_threshold\<close> holds
  and \<open>fail\<close> exactly when it does not (also when saving the diff image then fails). A
  score equal to the threshold gives \<open>ok\<close>, a score below it gives \<open>fail\<close>; with the
  default threshold the status is \<open>ok\<close> exactly from 0.92 upwards.
\<close>

theorem run_threshold:
  assumes run: "run_and_compare env p fls = Inr (Report r, flsF)"
    and cap: "capture_phase env p fls = Inr (ex, fls1)"
    and urls: "list_urls env (urls_path p) fls1 = Inr us"
    and i: "i < length us"
    and at: "files_at env p us fls1 i = Some fls_i"
    and base: "path_exists (base_dir p, sanitize_filename (us ! i) default_max_len) fls_i"
    and cur: "path_exists (shots_dir p, sanitize_filename (us ! i) default_max_len) fls_i"
    and cmp: "compare_pair env (base_dir p, sanitize_filename (us ! i) default_max_len)
                (shots_dir p, sanitize_filename (us ! i) default_max_len) fls_i = Inr m"
  shows "(status (items r ! i) = ''ok'' \<longleftrightarrow> float_ge (ssim m) (ssim_threshold p))
    \<and> (status (items r ! i) = ''fail'' \<longleftrightarrow> \<not> float_ge (ssim m) (ssim_threshold p))
    \<and> (ssim m = Finite x \<and> ssim_threshold p = Finite x \<longrightarrow> status (items r ! i) = ''ok'')
    \<and> (ssim m = Finite x \<and> ssim_threshold p = Finite y \<and> x < y \<longrightarrow>
          status (items r ! i) = ''fail'')
    \<and> (ssim m = Finite x \<and> ssim_threshold p = default_ssim_threshold \<longrightarrow>
          (status (items r ! i) = ''ok'' \<longleftrightarrow> 92 / 100 \<le> x))"
proof -
  from run_item [OF run cap urls i at] obtain st0 st' where
    s: "files st0 = fls_i" "tallied (per_item st0) (totals st0)"
       "process_url env p (us ! i) st0 = Inr st'"
       "per_item st' = per_item st0 @ [items r ! i]"
    by blast
  from process_url_status [OF s(2) base [folded s(1)] cur [folded s(1)] cmp [folded s(1)] s(3,4)]
  have st: "status (items r ! i)
      = (if float_ge (ssim m) (ssim_threshold p) then ''ok'' else ''fail'')" .
  have a: "status (items r ! i) = ''ok'' \<longleftrightarrow> float_ge (ssim m) (ssim_threshold p)"
    unfolding st by simp
  have b: "status (items r ! i) = ''fail'' \<longleftrightarrow> \<not> float_ge (ssim m) (ssim_threshold p)"
    unfolding st by simp
  have c: "ssim m = Finite x \<and> ssim_threshold p = Finite x \<longrightarrow> status (items r ! i) = ''ok''"
    unfolding a by simp
  have d: "ssim m = Finite x \<and> ssim_threshold p = Finite y \<and> x < y \<longrightarrow>
      status (items r ! i) = ''fail''"
    unfolding b by simp
  have e: "ssim m = Finite x \<and> ssim_threshold p = default_ssim_threshold \<longrightarrow>
      (status (items r ! i) = ''ok'' \<longleftrightarrow> 92 / 100 \<le> x)"
    unfolding a by (simp add: default_ssim_threshold_def)
  from a b c d e show ?thesis by blast
qed

lemma demo_at7: "files_at env_demo params_demo demo_urls files_captured 7 = Some files_changed"
  by code_simp

theorem run_threshold_witness:
  "compare_pair env_demo
      (base_dir params_demo, sanitize_filename (demo_urls ! 7) default_max_len)
      (shots_dir params_demo, sanitize_filename (demo_urls ! 7) default_max_len) files_changed
     = Inr \<lparr>ssim = Finite (92 / 100), mse = Finite 100, diff_vis = ''diff-image''\<rparr>
   \<and> ssim_threshold params_demo = Finite (92 / 100)
   \<and> map_option (\<lambda>r. status (items r ! 7))
        (report_of (run_and_compare env_demo params_demo files_demo)) = Some ''ok''
   \<and> compare_pair env_demo
      (base_dir params_demo, sanitize_filename (demo_urls ! 2) default_max_len)
      (shots_dir params_demo, sanitize_filename (demo_urls ! 2) default_max_len) files_captured
     = Inr \<lparr>ssim = Finite (1 / 2), mse = Finite 100, diff_vis = ''diff-image''\<rparr>
   \<and> map_option (\<lambda>r. status (items r ! 2))
        (report_of (run_and_compare env_demo params_demo files_demo)) = Some ''fail''"
proof -
  from demo_report obtain r where
    r: "report_of (run_and_compare env_demo params_demo files_demo) = Some r" by blast
  from report_ofD [OF r] obtain f where
    run: "run_and_compare env_demo params_demo files_demo = Inr (Report r, f)" by blast
  have i7: "7 < length demo_urls" and i2: "2 < length demo_urls"
    by (simp_all add: demo_urls_def)
  have b7: "path_exists (base_dir params_demo, sanitize_filename (demo_urls ! 7) default_max_len)
      files_changed"
    by code_simp
  have c7: "path_exists (shots_dir params_demo, sanitize_filename (demo_urls ! 7) default_max_len)
      files_changed"
    by code_simp
  have m7: "compare_pair env_demo
      (base_dir params_demo, sanitize_filename (demo_urls ! 7) default_max_len)
      (shots_dir params_demo, sanitize_filename (demo_urls ! 7) default_max_len) files_changed
     = Inr \<lparr>ssim = Finite (92 / 100), mse = Finite 100, diff_vis = ''diff-image''\<rparr>"
    by code_simp
  have b2: "path_exists (base_dir params_demo, sanitize_filename (demo_urls ! 2) default_max_len)
      files_captured"
    by code_simp
  have c2: "path_exists (shots_dir params_demo, sanitize_filename (demo_urls ! 2) default_max_len)
      files_captured"
    by code_simp
  have m2: "compare_pair env_demo
      (base_dir params_demo, sanitize_filename (demo_urls ! 2) default_max_len)
      (shots_dir params_demo, sanitize_filename (demo_urls ! 2) default_max_len) files_captured
     = Inr \<lparr>ssim = Finite (1 / 2), mse = Finite 100, diff_vis = ''diff-image''\<rparr>"
    by code_simp
  have th: "ssim_threshold params_demo = Finite (92 / 100)"
    by (simp add: params_demo_def default_ssim_threshold_def)
  note t7 = run_threshold [OF run demo_capture demo_urls_parsed i7 demo_at7 b7 c7 m7,
      where x = "92 / 100" and y = 1]
  note t2 = run_threshold [OF run demo_capture demo_urls_parsed i2 demo_at2 b2 c2 m2,
      where x = "1 / 2" and y = "92 / 100"]
  from t7 th have a: "status (items r ! 7) = ''ok''" by simp
  from t2 th have b: "status (items r ! 2) = ''fail''" by simp
  show ?thesis unfolding r using a b m7 m2 th by simp
qed

lemma save_diff_image_written:
  "save_diff_image env dv q fls = Inr fls' \<Longrightarrow>
   \<exists>bytes. image_encode env dv = Inr bytes \<and> map_of fls' q = Some (File bytes)"
  using save_diff_image_Inr [of env dv q fls fls'] by (auto simp: map_of_fs_write)

lemma process_url_outcome:
  fixes p u st env
  defines "name \<equiv> sanitize_filename u default_max_len"
  defines "base \<equiv> path_exists (base_dir p, name) (files st)"
  defines "cur \<equiv> path_exists (shots_dir p, name) (files st)"
  defines "cmp \<equiv> compare_pair env (base_dir p, name) (shots_dir p, name) (files st)"
  defines "dp \<equiv> (diffs_dir p, ''diff_'' @ name)"
  assumes t: "tallied (per_item st) (totals st)"
    and step: "process_url env p u st = Inr st'"
    and it: "per_item st' = per_item st @ [it]"
  shows "(base \<and> \<not> cur \<longrightarrow>
            status it = ''fail'' \<and> metrics it = None \<and> diff it = None \<and> files st' = files st)
    \<and> (base \<and> cur \<and> cmp = Inl e \<longrightarrow>
            status it = ''fail'' \<and> metrics it = None \<and> diff it = None \<and>
            reason it = Some (''Comparison error: '' @ str_exn e) \<and> files st' = files st)
    \<and> (base \<and> cur \<and> cmp = Inr m \<and> float_ge (ssim m) (ssim_threshold p) \<longrightarrow>
            status it = ''ok'' \<and> diff it = Some None \<and> files st' = files st)
    \<and> (base \<and> cur \<and> cmp = Inr m \<and> \<not> float_ge (ssim m) (ssim_threshold p) \<and>
         save_diff_image env (diff_vis m) dp (files st) = Inr fls' \<longrightarrow>
            status it = ''fail'' \<and> metrics it = Some (ssim m, mse m) \<and>
            diff it = Some (Some (str_path dp)) \<and> files st' = fls')
    \<and> (status it = ''ok'' \<longrightarrow> diff it = Some None \<and> files st' = files st)
    \<and> (status it = ''fail'' \<and> metrics it \<noteq> None \<longrightarrow>
            diff it = Some (Some (str_path dp)) \<and> path_exists dp (files st'))"
proof (cases base)
  case False
  with process_url_no_trainer [OF t, of p u env] step obtain it' t' where
    "st' = \<lparr>per_item = per_item st @ [it'], totals = t', files = files st\<rparr>"
    "status it' = ''no_trainer''"
    unfolding base_def name_def by auto
  from last_item [OF this(1) it] this(2) False show ?thesis by simp
next
  case b: True
  show ?thesis
  proof (cases cur)
    case False
    with b process_url_no_current [OF t, of p u env] step obtain it' t' where
      "st' = \<lparr>per_item = per_item st @ [it'], totals = t', files = files st\<rparr>"
      "status it' = ''fail''" "metrics it' = None" "diff it' = None"
      unfolding base_def cur_def name_def by auto
    from last_item [OF this(1) it] this(2-4) False b show ?thesis by simp
  next
    case c: True
    note ex = b [unfolded base_def name_def] c [unfolded cur_def name_def]
    show ?thesis
    proof (cases cmp)
      case (Inl e0)
      from try_compare_raise [OF Inl [unfolded cmp_def]]
      have "try_compare env p u (sanitize_filename u default_max_len) st = Inl (e0, st)"
        unfolding name_def .
      from process_url_raise [OF t ex this] step obtain it' t' where
        "st' = \<lparr>per_item = per_item st @ [it'], totals = t', files = files st\<rparr>"
        "status it' = ''fail''" "metrics it' = None" "diff it' = None"
        "reason it' = Some (''Comparison error: '' @ str_exn e0)"
        by auto
      from last_item [OF this(1) it] this(2-5) Inl b c show ?thesis by auto
    next
      case (Inr m0)
      show ?thesis
      proof (cases "float_ge (ssim m0) (ssim_threshold p)")
        case ge: True
        from try_compare_ok [OF t Inr [unfolded cmp_def] ge, of u] obtain it' t' where
          r: "try_compare env p u name st =
                Inr \<lparr>per_item = per_item st @ [it'], totals = t', files = files st\<rparr>"
             "status it' = ''ok''" "diff it' = Some None"
          by blast
        from process_url_compared [OF ex r(1) [unfolded name_def]] step
        have "st' = \<lparr>per_item = per_item st @ [it'], totals = t', files = files st\<rparr>" by simp
        from last_item [OF this it] r(2,3) Inr ge b c show ?thesis by auto
      next
        case nge: False
        show ?thesis
        proof (cases "save_diff_image env (diff_vis m0) dp (files st)")
          case (Inl e0)
          from try_compare_save_raise [OF Inr [unfolded cmp_def] nge Inl [unfolded dp_def]]
          have "try_compare env p u (sanitize_filename u default_max_len) st = Inl (e0, st)"
            unfolding name_def .
          from process_url_raise [OF t ex this] step obtain it' t' where
            "st' = \<lparr>per_item = per_item st @ [it'], totals = t', files = files st\<rparr>"
            "status it' = ''fail''" "metrics it' = None" "diff it' = None"
            by auto
          from last_item [OF this(1) it] this(2-4) Inr nge Inl b c show ?thesis by auto
        next
          case save: (Inr f0)
          from try_compare_fail [OF t Inr [unfolded cmp_def] nge save [unfolded dp_def], of u]
          obtain it' t' where
            r: "try_compare env p u name st =
                  Inr \<lparr>per_item = per_item st @ [it'], totals = t', files = f0\<rparr>"
               "status it' = ''fail''" "metrics it' = Some (ssim m0, mse m0)"
               "diff it' = Some (Some (str_path dp))"
            unfolding dp_def by blast
          from process_url_compared [OF ex r(1) [unfolded name_def]] step
          have "st' = \<lparr>per_item = per_item st @ [it'], totals = t', files = f0\<rparr>" by simp
          note l = last_item [OF this it]
          from save_diff_image_written [OF save] have "path_exists dp f0"
            by (auto simp: path_exists_def)
          with l r(2-4) Inr nge save b c show ?thesis by auto
        qed
      qed
    qed
  qed
qed

text \<open>
  Claim C2, as amended. When the turn of a URL comes: a missing current capture, or an
  exception while decoding or computing the metrics, gives \<open>fail\<close> with no \<open>diff\<close> entry
  and leaves the file system as it was; a score at or above the threshold gives \<open>ok\<close>
  with \<open>diff\<close> null and leaves the file system as it was; a score below the threshold
  whose diff image was saved gives \<open>fail\<close>, the file \<open>diff_<CaptureKey>\<close> in the diff
  directory holds the encoded image, the item names it, and the file is still there when
  the run ends. Read from the report: an item with status \<open>ok\<close> never comes with a diff
  artifact, and an item with status \<open>fail\<close> that carries metrics always does.
\<close>

theorem run_diff_artifact:
  fixes p us i fls_i env
  defines "name \<equiv> sanitize_filename (us ! i) default_max_len"
  defines "base \<equiv> path_exists (base_dir p, name) fls_i"
  defines "cur \<equiv> path_exists (shots_dir p, name) fls_i"
  defines "cmp \<equiv> compare_pair env (base_dir p, name) (shots_dir p, name) fls_i"
  defines "dp \<equiv> (diffs_dir p, ''diff_'' @ name)"
  assumes run: "run_and_compare env p fls = Inr (Report r, flsF)"
    and cap: "capture_phase env p fls = Inr (ex, fls1)"
    and urls: "list_urls env (urls_path p) fls1 = Inr us"
    and i: "i < length us"
    and at: "files_at env p us fls1 i = Some fls_i"
  shows "(base \<and> \<not> cur \<longrightarrow>
            status (items r ! i) = ''fail'' \<and> metrics (items r ! i) = None \<and>
            diff (items r ! i) = None \<and> files_at env p us fls1 (Suc i) = Some fls_i)
    \<and> (base \<and> cur \<and> cmp = Inl e \<longrightarrow>
            status (items r ! i) = ''fail'' \<and> metrics (items r ! i) = None \<and>
            diff (items r ! i) = None \<and>
            reason (items r ! i) = Some (''Comparison error: '' @ str_exn e) \<and>
            files_at env p us fls1 (Suc i) = Some fls_i)
    \<and> (base \<and> cur \<and> cmp = Inr m \<and> float_ge (ssim m) (ssim_threshold p) \<longrightarrow>
            status (items r ! i) = ''ok'' \<and> diff (items r ! i) = Some None \<and>
            files_at env p us fls1 (Suc i) = Some fls_i)
    \<and> (base \<and> cur \<and> cmp = Inr m \<and> \<not> float_ge (ssim m) (ssim_threshold p) \<and>
         save_diff_image env (diff_vis m) dp fls_i = Inr fls' \<longrightarrow>
            status (items r ! i) = ''fail'' \<and> metrics (items r ! i) = Some (ssim m, mse m) \<and>
            diff (items r ! i) = Some (Some (str_path dp)) \<and>
            files_at env p us fls1 (Suc i) = Some fls' \<and>
            (\<exists>bytes. image_encode env (diff_vis m) = Inr bytes \<and>
                     map_of fls' dp = Some (File bytes)) \<and>
            path_exists dp flsF)
    \<and> (status (items r ! i) = ''ok'' \<longrightarrow>
            diff (items r ! i) = Some None \<and> files_at env p us fls1 (Suc i) = Some fls_i)
    \<and> (status (items r ! i) = ''fail'' \<and> metrics (items r ! i) \<noteq> None \<longrightarrow>
            diff (items r ! i) = Some (Some (str_path dp)) \<and> path_exists dp flsF)"
proof -
  from run_item [OF run cap urls i at] obtain st0 st' where
    s: "files st0 = fls_i" "tallied (per_item st0) (totals st0)"
       "process_url env p (us ! i) st0 = Inr st'"
       "per_item st' = per_item st0 @ [items r ! i]"
       "files_at env p us fls1 (Suc i) = Some (files st')"
       "\<forall>x. path_exists x (files st') \<longrightarrow> path_exists x flsF"
    by blast
  note o = process_url_outcome [OF s(2,3,4), of e m fls', unfolded s(1),
      folded name_def, folded base_def cur_def cmp_def dp_def]
  note o1 = o [THEN conjunct1]
  note o2 = o [THEN conjunct2, THEN conjunct1]
  note o3 = o [THEN conjunct2, THEN conjunct2, THEN conjunct1]
  note o4 = o [THEN conjunct2, THEN conjunct2, THEN conjunct2, THEN conjunct1]
  note o5 = o [THEN conjunct2, THEN conjunct2, THEN conjunct2, THEN conjunct2, THEN conjunct1]
  note o6 = o [THEN conjunct2, THEN conjunct2, THEN conjunct2, THEN conjunct2, THEN conjunct2]
  have c1: "base \<and> \<not> cur \<longrightarrow>
      status (items r ! i) = ''fail'' \<and> metrics (items r ! i) = None \<and>
      diff (items r ! i) = None \<and> files_at env p us fls1 (Suc i) = Some fls_i"
    using o1 s(5) by simp
  have c2: "base \<and> cur \<and> cmp = Inl e \<longrightarrow>
      status (items r ! i) = ''fail'' \<and> metrics (items r ! i) = None \<and>
      diff (items r ! i) = None \<and>
      reason (items r ! i) = Some (''Comparison error: '' @ str_exn e) \<and>
      files_at env p us fls1 (Suc i) = Some fls_i"
    using o2 s(5) by simp
  have c3: "base \<and> cur \<and> cmp = Inr m \<and> float_ge (ssim m) (ssim_threshold p) \<longrightarrow>
      status (items r ! i) = ''ok'' \<and> diff (items r ! i) = Some None \<and>
      files_at env p us fls1 (Suc i) = Some fls_i"
    using o3 s(5) by simp
  have c4: "base \<and> cur \<and> cmp = Inr m \<and> \<not> float_ge (ssim m) (ssim_threshold p) \<and>
       save_diff_image env (diff_vis m) dp fls_i = Inr fls' \<longrightarrow>
      status (items r ! i) = ''fail'' \<and> metrics (items r ! i) = Some (ssim m, mse m) \<and>
      diff (items r ! i) = Some (Some (str_path dp)) \<and>
      files_at env p us fls1 (Suc i) = Some fls' \<and>
      (\<exists>bytes. image_encode env (diff_vis m) = Inr bytes \<and>
               map_of fls' dp = Some (File bytes)) \<and>
      path_exists dp flsF"
  proof (intro impI, elim conjE)
    assume h: base cur "cmp = Inr m" "\<not> float_ge (ssim m) (ssim_threshold p)"
      "save_diff_image env (diff_vis m) dp fls_i = Inr fls'"
    from o4 h have a: "status (items r ! i) = ''fail''"
      "metrics (items r ! i) = Some (ssim m, mse m)"
      "diff (items r ! i) = Some (Some (str_path dp))" "files st' = fls'"
      by simp_all
    from save_diff_image_written [OF h(5)] obtain bytes where
      b: "image_encode env (diff_vis m) = Inr bytes" "map_of fls' dp = Some (File bytes)"
      by blast
    from b(2) have "path_exists dp (files st')" unfolding a(4) by (simp add: path_exists_def)
    from s(6) [rule_format, OF this] a b s(5) show "status (items r ! i) = ''fail'' \<and>
      metrics (items r ! i) = Some (ssim m, mse m) \<and>
      diff (items r ! i) = Some (Some (str_path dp)) \<and>
      files_at env p us fls1 (Suc i) = Some fls' \<and>
      (\<exists>bytes. image_encode env (diff_vis m) = Inr bytes \<and>
               map_of fls' dp = Some (File bytes)) \<and>
      path_exists dp flsF"
      by simp
  qed
  have c5: "status (items r ! i) = ''ok'' \<longrightarrow>
      diff (items r ! i) = Some None \<and> files_at env p us fls1 (Suc i) = Some fls_i"
    using o5 s(5) by simp
  have c6: "status (items r ! i) = ''fail'' \<and> metrics (items r ! i) \<noteq> None \<longrightarrow>
      diff (items r ! i) = Some (Some (str_path dp)) \<and> path_exists dp flsF"
    using o6 s(6) [rule_format, of dp] by blast
  from c1 c2 c3 c4 c5 c6 show ?thesis by (intro conjI)
qed

lemma demo_at1: "files_at env_demo params_demo demo_urls files_captured 1 = Some files_captured"
  by code_simp

lemma demo_at4: "files_at env_demo params_demo demo_urls files_captured 4 = Some files_changed"
  by code_simp

lemma files_afterI: "x = Inr (resp, f) \<Longrightarrow> files_after x = Some f"
  by (simp add: files_after_def)

theorem run_diff_artifact_witness:
  "map_option (\<lambda>r. (status (items r ! 2), diff (items r ! 2)))
     (report_of (run_and_compare env_demo params_demo files_demo))
     = Some (''fail'', Some (Some ''/data/diff/diff_example.com_changed.png''))
   \<and> map_option (path_exists (''/data/diff'', ''diff_example.com_changed.png''))
        (files_after (run_and_compare env_demo params_demo files_demo)) = Some True
   \<and> map_option (\<lambda>r. (status (items r ! 1), diff (items r ! 1)))
        (report_of (run_and_compare env_demo params_demo files_demo)) = Some (''ok'', Some None)
   \<and> map_option (\<lambda>r. (status (items r ! 3), diff (items r ! 3)))
        (report_of (run_and_compare env_demo params_demo files_demo)) = Some (''fail'', None)
   \<and> map_option (\<lambda>r. (status (items r ! 4), diff (items r ! 4)))
        (report_of (run_and_compare env_demo params_demo files_demo)) = Some (''fail'', None)"
proof -
  from demo_report obtain r where
    r: "report_of (run_and_compare env_demo params_demo files_demo) = Some r" by blast
  from report_ofD [OF r] obtain f where
    run: "run_and_compare env_demo params_demo files_demo = Inr (Report r, f)" by blast
  note fa = files_afterI [OF run]
  have i: "1 < length demo_urls" "2 < length demo_urls" "3 < length demo_urls"
    "4 < length demo_urls"
    by (simp_all add: demo_urls_def)
  have n: "sanitize_filename (demo_urls ! 1) default_max_len = ''example.com_same.png''"
    "sanitize_filename (demo_urls ! 2) default_max_len = ''example.com_changed.png''"
    "sanitize_filename (demo_urls ! 3) default_max_len = ''example.com_missing.png''"
    "sanitize_filename (demo_urls ! 4) default_max_len = ''example.com_corrupt.png''"
    by code_simp+
  have d: "base_dir params_demo = ''/data/trainer_screenshots''"
    "shots_dir params_demo = ''/data/screenshots''" "diffs_dir params_demo = ''/data/diff''"
    "ssim_threshold params_demo = Finite (92 / 100)"
    by (simp_all add: params_demo_def default_ssim_threshold_def)
  have e1: "path_exists (''/data/trainer_screenshots'', ''example.com_same.png'') files_captured"
    "path_exists (''/data/screenshots'', ''example.com_same.png'') files_captured"
    "compare_pair env_demo (''/data/trainer_screenshots'', ''example.com_same.png'')
       (''/data/screenshots'', ''example.com_same.png'') files_captured
      = Inr \<lparr>ssim = Finite 1, mse = Finite 0, diff_vis = ''diff-image''\<rparr>"
    by code_simp+
  have e2: "path_exists (''/data/trainer_screenshots'', ''example.com_changed.png'') files_captured"
    "path_exists (''/data/screenshots'', ''example.com_changed.png'') files_captured"
    "compare_pair env_demo (''/data/trainer_screenshots'', ''example.com_changed.png'')
       (''/data/screenshots'', ''example.com_changed.png'') files_captured
      = Inr \<lparr>ssim = Finite (1 / 2), mse = Finite 100, diff_vis = ''diff-image''\<rparr>"
    "save_diff_image env_demo ''diff-image'' (''/data/diff'', ''diff_example.com_changed.png'')
       files_captured = Inr files_changed"
    by code_simp+
  have e3: "path_exists (''/data/trainer_screenshots'', ''example.com_missing.png'') files_changed"
    "\<not> path_exists (''/data/screenshots'', ''example.com_missing.png'') files_changed"
    by code_simp+
  have e4: "path_exists (''/data/trainer_screenshots'', ''example.com_corrupt.png'') files_changed"
    "path_exists (''/data/screenshots'', ''example.com_corrupt.png'') files_changed"
    "compare_pair env_demo (''/data/trainer_screenshots'', ''example.com_corrupt.png'')
       (''/data/screenshots'', ''example.com_corrupt.png'') files_changed
      = Inl (Exception ''cannot identify image file'')"
    by code_simp+
  note t1 = run_diff_artifact [OF run demo_capture demo_urls_parsed i(1) demo_at1,
      where m = "\<lparr>ssim = Finite 1, mse = Finite 0, diff_vis = ''diff-image''\<rparr>",
      unfolded n d, THEN conjunct2, THEN conjunct2, THEN conjunct1]
  note t2 = run_diff_artifact [OF run demo_capture demo_urls_parsed i(2) demo_at2,
      where m = "\<lparr>ssim = Finite (1 / 2), mse = Finite 100, diff_vis = ''diff-image''\<rparr>"
        and fls' = files_changed,
      unfolded n d, THEN conjunct2, THEN conjunct2, THEN conjunct2, THEN conjunct1]
  note t3 = run_diff_artifact [OF run demo_capture demo_urls_parsed i(3) demo_at3,
      unfolded n d, THEN conjunct1]
  note t4 = run_diff_artifact [OF run demo_capture demo_urls_parsed i(4) demo_at4,
      where e = "Exception ''cannot identify image file''",
      unfolded n d, THEN conjunct2, THEN conjunct1]
  from t1 e1 have a1: "status (items r ! 1) = ''ok''" "diff (items r ! 1) = Some None"
    by simp_all
  from t2 e2 have a2: "status (items r ! 2) = ''fail''"
    "diff (items r ! 2) = Some (Some (str_path (''/data/diff'', ''diff_example.com_changed.png'')))"
    "path_exists (''/data/diff'', ''diff_example.com_changed.png'') f"
    by simp_all
  from t3 e3 have a3: "status (items r ! 3) = ''fail''" "diff (items r ! 3) = None"
    by simp_all
  from t4 e4 have a4: "status (items r ! 4) = ''fail''" "diff (items r ! 4) = None"
    by simp_all
  show ?thesis unfolding r fa using a1 a2 a3 a4 by (simp add: str_path_def)
qed

text \<open>
  Claim C2 as stated fails: a \<open>fail\<close> from a missing current capture and a \<open>fail\<close> from a
  comparison exception leave no \<open>diff_<CaptureKey>\<close> file behind.
\<close>

theorem run_fail_without_diff_counterexample:
  "map_option (\<lambda>r. (status (items r ! 3), reason (items r ! 3), diff (items r ! 3)))
     (report_of (run_and_compare env_demo params_demo files_demo))
     = Some (''fail'', Some ''Current screenshot not found: example.com_missing.png'', None)
   \<and> map_option (path_exists (diffs_dir params_demo,
          ''diff_'' @ sanitize_filename (demo_urls ! 3) default_max_len))
        (files_after (run_and_compare env_demo params_demo files_demo)) = Some False
   \<and> map_option (\<lambda>r. (status (items r ! 4), reason (items r ! 4), diff (items r ! 4)))
        (report_of (run_and_compare env_demo params_demo files_demo))
     = Some (''fail'', Some ''Comparison error: cannot identify image file'', None)
   \<and> map_option (path_exists (diffs_dir params_demo,
          ''diff_'' @ sanitize_filename (demo_urls ! 4) default_max_len))
        (files_after (run_and_compare env_demo params_demo files_demo)) = Some False"
  by code_simp

end
